theory Spec2Isabelle
  imports Main "HOL-Library.Word"
begin

unbundle bit_operations_syntax

section \<open>The OR-link connection engine of Tor\<close>

text \<open>
  A shallow embedding of parts of \<^verbatim>\<open>src/or/connection.c\<close> and
  \<^verbatim>\<open>src/or/connection_or.c\<close>: the token buckets, the close mark, the cell
  codec, the handshake transcript, the identity map and the selection and badness
  policies of OR connections.
\<close>

subsection \<open>C integers\<close>

text \<open>
  A C \<^verbatim>\<open>int\<close> is a HOL \<open>int\<close> in the 32-bit two's-complement range; a result that
  leaves the range is brought back by \<open>int_wrap\<close> (what the compiled code does on
  overflow and what a narrowing cast does). \<^verbatim>\<open>int64_t\<close> likewise with
  \<open>int64_wrap\<close>. C division truncates towards zero.
\<close>

definition is_int :: "int \<Rightarrow> bool" where
  "is_int x \<longleftrightarrow> - (2 ^ 31) \<le> x \<and> x < 2 ^ 31"

definition int_wrap :: "int \<Rightarrow> int" where
  "int_wrap x = (x + 2 ^ 31) mod 2 ^ 32 - 2 ^ 31"

definition int64_wrap :: "int \<Rightarrow> int" where
  "int64_wrap x = (x + 2 ^ 63) mod 2 ^ 64 - 2 ^ 63"

definition c_div :: "int \<Rightarrow> int \<Rightarrow> int" where
  "c_div a b = sgn a * sgn b * (\<bar>a\<bar> div \<bar>b\<bar>)"

subsection \<open>Token buckets: one refill step\<close>

text \<open>
  \<^verbatim>\<open>connection_bucket_refill_helper(int *bucket, int rate, int burst,
  int milliseconds_elapsed, const char *name)\<close>; the function returns the new value of
  \<^verbatim>\<open>*bucket\<close>. The debug log line is not modelled.
\<close>

definition connection_bucket_refill_helper :: "int \<Rightarrow> int \<Rightarrow> int \<Rightarrow> int \<Rightarrow> int" where
  "connection_bucket_refill_helper bucket rate burst milliseconds_elapsed =
     (let starting_bucket = bucket in
      if starting_bucket < burst \<and> milliseconds_elapsed > 0 then
        (let incr = c_div (int64_wrap (rate * milliseconds_elapsed)) 1000 in
         if int_wrap (burst - starting_bucket) < incr then burst
         else
           (let bucket' = int_wrap (bucket + int_wrap incr) in
            if bucket' > burst \<or> bucket' < starting_bucket then burst else bucket'))
      else bucket)"


subsection \<open>Bytes and byte order\<close>

type_synonym uint8_t = "8 word"
type_synonym uint16_t = "16 word"
type_synonym bytes = "uint8_t list"

text \<open>
  \<^verbatim>\<open>memcpy(dest + off, src, n)\<close> on a buffer held as a list: \<open>n\<close> bytes of \<open>src\<close>
  replace the bytes of \<open>dest\<close> from offset \<open>off\<close> on.
\<close>

definition memcpy :: "bytes \<Rightarrow> nat \<Rightarrow> bytes \<Rightarrow> nat \<Rightarrow> bytes" where
  "memcpy dest off src n = take off dest @ take n src @ drop (off + n) dest"

text \<open>
  The host's byte order is a parameter. \<^verbatim>\<open>htons\<close> and \<^verbatim>\<open>ntohs\<close> swap the two
  bytes on a little-endian host and do nothing on a big-endian one;
  \<^verbatim>\<open>set_uint16\<close> and \<^verbatim>\<open>get_uint16\<close> (\<^verbatim>\<open>src/common/compat.c\<close>) copy the two
  bytes of the host representation.
\<close>

datatype byte_order = Little_endian | Big_endian

definition htons :: "byte_order \<Rightarrow> uint16_t \<Rightarrow> uint16_t" where
  "htons bo v = (case bo of Big_endian \<Rightarrow> v
                 | Little_endian \<Rightarrow> push_bit 8 v OR drop_bit 8 v)"

definition ntohs :: "byte_order \<Rightarrow> uint16_t \<Rightarrow> uint16_t" where
  "ntohs bo v = (case bo of Big_endian \<Rightarrow> v
                 | Little_endian \<Rightarrow> push_bit 8 v OR drop_bit 8 v)"

definition uint16_bytes :: "byte_order \<Rightarrow> uint16_t \<Rightarrow> bytes" where
  "uint16_bytes bo v = (case bo of
       Little_endian \<Rightarrow> [ucast v, ucast (drop_bit 8 v)]
     | Big_endian \<Rightarrow> [ucast (drop_bit 8 v), ucast v])"

definition uint16_of_bytes :: "byte_order \<Rightarrow> uint8_t \<Rightarrow> uint8_t \<Rightarrow> uint16_t" where
  "uint16_of_bytes bo b0 b1 = (case bo of
       Little_endian \<Rightarrow> ucast b0 OR push_bit 8 (ucast b1)
     | Big_endian \<Rightarrow> push_bit 8 (ucast b0) OR ucast b1)"

definition set_uint16 :: "byte_order \<Rightarrow> bytes \<Rightarrow> nat \<Rightarrow> uint16_t \<Rightarrow> bytes" where
  "set_uint16 bo dest off v = memcpy dest off (uint16_bytes bo v) 2"

definition set_uint8 :: "bytes \<Rightarrow> nat \<Rightarrow> uint8_t \<Rightarrow> bytes" where
  "set_uint8 dest off v = memcpy dest off [v] 1"

definition get_uint16 :: "byte_order \<Rightarrow> bytes \<Rightarrow> nat \<Rightarrow> uint16_t" where
  "get_uint16 bo cp off = uint16_of_bytes bo (cp ! off) (cp ! (off + 1))"

subsection \<open>Cells\<close>

text \<open>
  Modelled from the spec: \<^verbatim>\<open>or.h\<close>, which defines the sizes and the cell structures,
  is not among the sources. Sections 3 and 6 of the specification give a 2-byte
  circuit id, a 1-byte command and a 509-byte payload, 512 bytes on the wire, for the
  link protocols 1 to 3 that this code negotiates, and a 5-byte variable-length header.
\<close>

definition CELL_PAYLOAD_SIZE :: nat where
  "CELL_PAYLOAD_SIZE = 509"

definition CELL_NETWORK_SIZE :: nat where
  "CELL_NETWORK_SIZE = 512"

definition VAR_CELL_HEADER_SIZE :: nat where
  "VAR_CELL_HEADER_SIZE = 5"

record cell_t =
  circ_id :: uint16_t
  command :: uint8_t
  payload :: bytes

record var_cell_t =
  var_command :: uint8_t
  var_circ_id :: uint16_t
  payload_len :: uint16_t
  var_payload :: bytes

text \<open>
  \<^verbatim>\<open>cell_pack(packed_cell_t *dst, const cell_t *src)\<close>. The first argument is the
  content of \<^verbatim>\<open>dst->body\<close> before the call (\<^verbatim>\<open>char body[CELL_NETWORK_SIZE]\<close>), the
  result its content after.
\<close>

definition cell_pack :: "byte_order \<Rightarrow> bytes \<Rightarrow> cell_t \<Rightarrow> bytes" where
  "cell_pack bo body src =
     (let dest = set_uint16 bo body 0 (htons bo (circ_id src));
          dest = set_uint8 dest 2 (command src)
      in memcpy dest 3 (payload src) CELL_PAYLOAD_SIZE)"

text \<open>
  \<^verbatim>\<open>cell_unpack(cell_t *dest, const char *src)\<close>. The C reads
  \<^verbatim>\<open>3 + CELL_PAYLOAD_SIZE\<close> bytes at \<^verbatim>\<open>src\<close> without a check; a shorter buffer is
  a read out of bounds, \<open>None\<close> here.
\<close>

definition cell_unpack :: "byte_order \<Rightarrow> bytes \<Rightarrow> cell_t option" where
  "cell_unpack bo src =
     (if length src < 3 + CELL_PAYLOAD_SIZE then None
      else Some \<lparr>circ_id = ntohs bo (get_uint16 bo src 0),
                 command = src ! 2,
                 payload = take CELL_PAYLOAD_SIZE (drop 3 src)\<rparr>)"


subsection \<open>The read path of an OR connection\<close>

text \<open>
  Modelled from the spec: \<^verbatim>\<open>fetch_var_cell_from_buf\<close> is in \<^verbatim>\<open>buffers.c\<close>, which is
  not among the sources. Section 4.1: peek the header; if the command is one of
  VERSIONS (7), VPADDING (128), CERTS (129), AUTH_CHALLENGE (130), AUTHENTICATE (131),
  require \<^verbatim>\<open>payload_len\<close> more bytes after the header before dequeuing; nothing
  is consumed while data is missing.
\<close>

definition var_length_command :: "uint8_t \<Rightarrow> bool" where
  "var_length_command c \<longleftrightarrow> c = 7 \<or> c = 128 \<or> c = 129 \<or> c = 130 \<or> c = 131"

datatype var_fetch = Not_var_cell | Var_incomplete | Var_complete var_cell_t bytes

definition fetch_var_cell_from_buf :: "byte_order \<Rightarrow> bytes \<Rightarrow> var_fetch" where
  "fetch_var_cell_from_buf bo buf =
     (if length buf < VAR_CELL_HEADER_SIZE then Not_var_cell
      else if \<not> var_length_command (buf ! 2) then Not_var_cell
      else
        (let len = ntohs bo (get_uint16 bo buf 3) in
         if length buf < VAR_CELL_HEADER_SIZE + unat len then Var_incomplete
         else Var_complete
                \<lparr>var_command = buf ! 2,
                 var_circ_id = ntohs bo (get_uint16 bo buf 0),
                 payload_len = len,
                 var_payload = take (unat len) (drop VAR_CELL_HEADER_SIZE buf)\<rparr>
                (drop (VAR_CELL_HEADER_SIZE + unat len) buf)))"

text \<open>
  One turn of the loop of \<^verbatim>\<open>connection_or_process_cells_from_inbuf\<close>: either the
  loop returns (\<open>Not_yet\<close>), or a cell is taken off the inbuf and handed to
  \<^verbatim>\<open>command_process_var_cell\<close> or \<^verbatim>\<open>command_process_cell\<close> (\<^verbatim>\<open>command.c\<close>, not
  among the sources; the cell handed over is all that is recorded of the call).
\<close>

datatype or_cell = Var_cell var_cell_t | Fixed_cell cell_t

datatype inbuf_turn = Not_yet | Handed or_cell bytes

definition process_cells_turn :: "byte_order \<Rightarrow> bytes \<Rightarrow> inbuf_turn" where
  "process_cells_turn bo inbuf =
     (case fetch_var_cell_from_buf bo inbuf of
        Var_incomplete \<Rightarrow> Not_yet
      | Var_complete var_cell rest \<Rightarrow> Handed (Var_cell var_cell) rest
      | Not_var_cell \<Rightarrow>
          if length inbuf < CELL_NETWORK_SIZE then Not_yet
          else
            (case cell_unpack bo (take CELL_NETWORK_SIZE inbuf) of
               None \<Rightarrow> Not_yet
             | Some cell \<Rightarrow> Handed (Fixed_cell cell) (drop CELL_NETWORK_SIZE inbuf)))"


subsection \<open>Connections\<close>

text \<open>
  Modelled from the spec: the structures \<^verbatim>\<open>connection_t\<close>, \<^verbatim>\<open>or_connection_t\<close>,
  \<^verbatim>\<open>or_handshake_state_t\<close> and \<^verbatim>\<open>or_options_t\<close> and the constants for
  connection types, states and cell commands are declared in \<^verbatim>\<open>or.h\<close>, which is not
  among the sources. The records below hold the fields that the functions modelled here
  read or write, under the names the C uses; the numbers of the constants are those of
  section 6 of the specification (cell commands) or chosen distinct (types, states).
\<close>

text \<open>
  A \<^verbatim>\<open>time_t\<close> is a signed integer of 64 bits. Where the C adds to a time, the sum
  is written with \<open>int64_wrap\<close>: the compiled code wraps around.
\<close>

type_synonym time_t = int
type_synonym cref = nat
type_synonym digest = "160 word"

datatype tor_addr_t = Addr_unspec | Addr_ipv4 "32 word" | Addr_ipv6 "128 word"

datatype conn_type_t =
    CONN_TYPE_OR_LISTENER | CONN_TYPE_OR | CONN_TYPE_EXIT | CONN_TYPE_AP_LISTENER
  | CONN_TYPE_AP | CONN_TYPE_DIR_LISTENER | CONN_TYPE_DIR | CONN_TYPE_CPUWORKER
  | CONN_TYPE_CONTROL_LISTENER | CONN_TYPE_CONTROL

definition OR_CONN_STATE_CONNECTING :: nat where "OR_CONN_STATE_CONNECTING = 1"
definition OR_CONN_STATE_PROXY_HANDSHAKING :: nat where "OR_CONN_STATE_PROXY_HANDSHAKING = 2"
definition OR_CONN_STATE_TLS_HANDSHAKING :: nat where "OR_CONN_STATE_TLS_HANDSHAKING = 3"
definition OR_CONN_STATE_TLS_CLIENT_RENEGOTIATING :: nat where
  "OR_CONN_STATE_TLS_CLIENT_RENEGOTIATING = 4"
definition OR_CONN_STATE_TLS_SERVER_RENEGOTIATING :: nat where
  "OR_CONN_STATE_TLS_SERVER_RENEGOTIATING = 5"
definition OR_CONN_STATE_OR_HANDSHAKING_V2 :: nat where "OR_CONN_STATE_OR_HANDSHAKING_V2 = 6"
definition OR_CONN_STATE_OPEN :: nat where "OR_CONN_STATE_OPEN = 8"

definition DIR_PURPOSE_SERVER :: nat where "DIR_PURPOSE_SERVER = 16"


text \<open>
  A running SHA-256 (\<^verbatim>\<open>crypto_digest_env_t *\<close>, from the absent \<^verbatim>\<open>crypto.c\<close>) is
  held as the bytes added to it so far; \<open>None\<close> is the \<^verbatim>\<open>NULL\<close> pointer.
\<close>

record or_handshake_state_t =
  started_here :: bool
  digest_sent_data :: bool
  digest_received_data :: bool
  digest_sent :: "bytes option"
  digest_received :: "bytes option"
  sent_versions_at :: time_t

text \<open>
  \<open>marked_for_close\<close> is a \<^verbatim>\<open>uint16_t\<close> holding the line of the call that marked
  the connection, 0 while unmarked. \<open>reading\<close> and \<open>writing\<close> say whether the read
  and the write event of the connection are registered with the event loop;
  \<open>write_event\<close> says whether the connection has a write event at all (the pointer is
  not \<^verbatim>\<open>NULL\<close>). \<open>sock\<close> is the socket \<^verbatim>\<open>s\<close>, \<open>linked_conn\<close> the connection
  that this one is linked to, \<open>address\<close> the string \<^verbatim>\<open>address\<close> (\<open>None\<close> for
  \<^verbatim>\<open>NULL\<close>), and \<open>tls\<close> says whether an OR connection has a TLS object.
  \<open>outbuf_flushlen\<close> is a \<^verbatim>\<open>size_t\<close>, of 64 bits.
\<close>

record connection_t =
  conn_type :: conn_type_t
  state :: nat
  purpose :: nat
  marked_for_close :: nat
  marked_for_close_file :: "string option"
  hold_open_until_flushed :: bool
  timestamp_created :: time_t
  timestamp_lastwritten :: time_t
  read_blocked_on_bw :: bool
  write_blocked_on_bw :: bool
  reading :: bool
  writing :: bool
  outbuf :: bytes
  magic :: "32 word"
  sock :: int
  linked :: bool
  linked_conn :: "cref option"
  linked_conn_is_closed :: bool
  outbuf_flushlen :: nat
  in_flushed_some :: bool
  write_event :: bool
  address :: "string option"
  addr :: tor_addr_t

record or_connection_t = connection_t +
  identity_digest :: digest
  next_with_same_id :: "cref option"
  real_addr :: tor_addr_t
  link_proto :: nat
  is_canonical :: bool
  is_bad_for_new_circs :: bool
  is_connection_with_client :: bool
  is_outgoing :: bool
  n_circuits :: int
  client_used :: time_t
  bandwidthrate :: int
  bandwidthburst :: int
  read_bucket :: int
  write_bucket :: int
  handshake_state :: "or_handshake_state_t option"
  timestamp_last_added_nonpadding :: time_t
  tls :: bool

text \<open>
  The global state: the connection objects by address, the array of all connections and
  the list of connections to close of \<^verbatim>\<open>main.c\<close>, the identity map of
  \<^verbatim>\<open>connection_or.c\<close> (\<open>None\<close> while the pointer is \<^verbatim>\<open>NULL\<close>; a digestmap is
  held as an association list with distinct keys), the global buckets of
  \<^verbatim>\<open>connection.c\<close>, and the warnings logged in domain \<^verbatim>\<open>LD_BUG\<close>.
\<close>

record tor_state =
  conns :: "cref \<Rightarrow> or_connection_t"
  connection_array :: "cref list"
  closeable_connection_lst :: "cref list"
  orconn_identity_map :: "(digest \<times> cref) list option"
  global_read_bucket :: int
  global_write_bucket :: int
  global_relayed_read_bucket :: int
  global_relayed_write_bucket :: int
  write_buckets_empty_last_second :: bool
  bug_log :: "string list"

definition conn_update :: "cref \<Rightarrow> (or_connection_t \<Rightarrow> or_connection_t) \<Rightarrow> tor_state \<Rightarrow> tor_state" where
  "conn_update p f s = s\<lparr>conns := (conns s)(p := f (conns s p))\<rparr>"

text \<open>\<^verbatim>\<open>tor_assert\<close> aborts the process; so does a dereferenced \<^verbatim>\<open>NULL\<close>.\<close>

datatype abort = Assertion_failed string | Null_dereference

subsection \<open>Marking a connection for close\<close>

text \<open>
  Modelled from the spec: \<^verbatim>\<open>add_connection_to_closeable_list\<close> is in \<^verbatim>\<open>main.c\<close>,
  which is not among the sources. Section 4.4: marking queues the teardown; the
  connection is added to the list that the main loop closes on its next pass.
\<close>

definition add_connection_to_closeable_list :: "cref \<Rightarrow> tor_state \<Rightarrow> tor_state" where
  "add_connection_to_closeable_list conn s =
     s\<lparr>closeable_connection_lst := closeable_connection_lst s @ [conn]\<rparr>"

text \<open>
  Modelled from the spec: the magic numbers of the connection structures, the ranges of
  the states and purposes of each type of connection, and the macros \<^verbatim>\<open>CONN_IS_EDGE\<close>
  and \<^verbatim>\<open>SOCKET_OK\<close> are in \<^verbatim>\<open>or.h\<close> and \<^verbatim>\<open>compat.h\<close>, which are not among the
  sources. Section 3 names the types of connection and the states of an OR link; the
  numbers below stand for those of the headers.
\<close>

definition BASE_CONNECTION_MAGIC :: "32 word" where "BASE_CONNECTION_MAGIC = 0x7C3C304E"
definition OR_CONNECTION_MAGIC :: "32 word" where "OR_CONNECTION_MAGIC = 0x7D31FF03"
definition EDGE_CONNECTION_MAGIC :: "32 word" where "EDGE_CONNECTION_MAGIC = 0xF0374013"
definition ENTRY_CONNECTION_MAGIC :: "32 word" where "ENTRY_CONNECTION_MAGIC = 0xBB4A5703"
definition DIR_CONNECTION_MAGIC :: "32 word" where "DIR_CONNECTION_MAGIC = 0x9988FFEE"
definition CONTROL_CONNECTION_MAGIC :: "32 word" where "CONTROL_CONNECTION_MAGIC = 0x8ABC765D"
definition LISTENER_CONNECTION_MAGIC :: "32 word" where "LISTENER_CONNECTION_MAGIC = 0x1A1AC741"

definition LISTENER_STATE_READY :: nat where "LISTENER_STATE_READY = 0"
definition CPUWORKER_STATE_MIN :: nat where "CPUWORKER_STATE_MIN = 1"
definition CPUWORKER_STATE_MAX :: nat where "CPUWORKER_STATE_MAX = 2"
definition OR_CONN_STATE_MIN :: nat where "OR_CONN_STATE_MIN = 1"
definition OR_CONN_STATE_MAX :: nat where "OR_CONN_STATE_MAX = 8"
definition EXIT_CONN_STATE_MIN :: nat where "EXIT_CONN_STATE_MIN = 1"
definition EXIT_CONN_STATE_RESOLVING :: nat where "EXIT_CONN_STATE_RESOLVING = 1"
definition EXIT_CONN_STATE_MAX :: nat where "EXIT_CONN_STATE_MAX = 4"
definition AP_CONN_STATE_MIN :: nat where "AP_CONN_STATE_MIN = 5"
definition AP_CONN_STATE_OPEN :: nat where "AP_CONN_STATE_OPEN = 11"
definition AP_CONN_STATE_MAX :: nat where "AP_CONN_STATE_MAX = 12"
definition DIR_CONN_STATE_MIN :: nat where "DIR_CONN_STATE_MIN = 1"
definition DIR_CONN_STATE_MAX :: nat where "DIR_CONN_STATE_MAX = 6"
definition CONTROL_CONN_STATE_MIN :: nat where "CONTROL_CONN_STATE_MIN = 1"
definition CONTROL_CONN_STATE_MAX :: nat where "CONTROL_CONN_STATE_MAX = 2"
definition EXIT_PURPOSE_MIN :: nat where "EXIT_PURPOSE_MIN = 1"
definition EXIT_PURPOSE_CONNECT :: nat where "EXIT_PURPOSE_CONNECT = 1"
definition EXIT_PURPOSE_RESOLVE :: nat where "EXIT_PURPOSE_RESOLVE = 2"
definition EXIT_PURPOSE_MAX :: nat where "EXIT_PURPOSE_MAX = 2"
definition DIR_PURPOSE_MIN :: nat where "DIR_PURPOSE_MIN = 3"
definition DIR_PURPOSE_MAX :: nat where "DIR_PURPOSE_MAX = 19"

definition SOCKET_OK :: "int \<Rightarrow> bool" where
  "SOCKET_OK fd \<longleftrightarrow> 0 \<le> fd"

definition CONN_IS_EDGE :: "'a connection_t_scheme \<Rightarrow> bool" where
  "CONN_IS_EDGE conn \<longleftrightarrow> conn_type conn = CONN_TYPE_EXIT \<or> conn_type conn = CONN_TYPE_AP"


text \<open>
  The objects of this model are OR connections. Of an edge or entry connection
  \<^verbatim>\<open>assert_connection_ok\<close> reads fields of \<^verbatim>\<open>edge_connection_t\<close> and
  \<^verbatim>\<open>entry_connection_t\<close>, which the record \<open>or_connection_t\<close> does not hold; they are
  given apart, the pointers among them as the truth of their not being \<^verbatim>\<open>NULL\<close>.
  \<open>cpath_layer_ok\<close> is the outcome of \<^verbatim>\<open>assert_cpath_layer_ok\<close>, which is not among
  the sources.
\<close>

record edge_fields =
  edge_blocked_on_circ :: bool
  chosen_exit_optional :: bool
  chosen_exit_retries :: bool
  chosen_exit_name :: bool
  socks_request :: bool
  socks_has_finished :: bool
  cpath_layer :: bool
  cpath_layer_ok :: bool

text \<open>
  What the parts of the program that are not among the sources decide for the functions
  modelled here: the fields of edge connections; whether \<^verbatim>\<open>write_to_buf\<close>
  (\<^verbatim>\<open>buffers.c\<close>) fails on a string and a buffer; the option
  \<^verbatim>\<open>CountPrivateBandwidth\<close> and \<^verbatim>\<open>tor_addr_is_internal\<close> (\<^verbatim>\<open>address.c\<close>); and
  \<open>flush_outbuf\<close>, the part of \<^verbatim>\<open>connection_handle_write_impl\<close> that drives the
  socket and the TLS object, see there.
\<close>

record io_env =
  edge :: "cref \<Rightarrow> edge_fields"
  write_to_buf_fails :: "bytes \<Rightarrow> bytes \<Rightarrow> bool"
  CountPrivateBandwidth :: bool
  tor_addr_is_internal :: "tor_addr_t \<Rightarrow> bool"
  flush_outbuf :: "cref \<Rightarrow> bool \<Rightarrow> tor_state \<Rightarrow> abort + int \<times> tor_state"

text \<open>\<^verbatim>\<open>tor_assert(expr)\<close> before the rest of a function.\<close>

definition tor_assert :: "bool \<Rightarrow> string \<Rightarrow> abort + 'a \<Rightarrow> abort + 'a" where
  "tor_assert expr msg rest = (if expr then rest else Inl (Assertion_failed msg))"

text \<open>
  \<^verbatim>\<open>assert_connection_ok(connection_t *conn, time_t now)\<close>, which does not use
  \<open>now\<close>. The type of a connection is always one of the types, the build is one without
  bufferevents, and a list of bytes is always a sound buffer (\<^verbatim>\<open>assert_buf_ok\<close>, of
  \<^verbatim>\<open>buffers.c\<close>): these checks are not written. \<^verbatim>\<open>connection_is_writing\<close>
  (\<^verbatim>\<open>main.c\<close>) is the flag \<open>writing\<close>.
\<close>

definition assert_connection_ok :: "io_env \<Rightarrow> (cref \<Rightarrow> or_connection_t) \<Rightarrow> cref \<Rightarrow> abort + unit" where
  "assert_connection_ok io h conn =
     (let k = h conn; e = edge io conn
      in
      tor_assert (magic k =
          (case conn_type k of
             CONN_TYPE_OR \<Rightarrow> OR_CONNECTION_MAGIC
           | CONN_TYPE_AP \<Rightarrow> ENTRY_CONNECTION_MAGIC
           | CONN_TYPE_EXIT \<Rightarrow> EDGE_CONNECTION_MAGIC
           | CONN_TYPE_DIR \<Rightarrow> DIR_CONNECTION_MAGIC
           | CONN_TYPE_CONTROL \<Rightarrow> CONTROL_CONNECTION_MAGIC
           | CONN_TYPE_OR_LISTENER \<Rightarrow> LISTENER_CONNECTION_MAGIC
           | CONN_TYPE_AP_LISTENER \<Rightarrow> LISTENER_CONNECTION_MAGIC
           | CONN_TYPE_DIR_LISTENER \<Rightarrow> LISTENER_CONNECTION_MAGIC
           | CONN_TYPE_CONTROL_LISTENER \<Rightarrow> LISTENER_CONNECTION_MAGIC
           | CONN_TYPE_CPUWORKER \<Rightarrow> BASE_CONNECTION_MAGIC))
        ''conn->magic''
     (tor_assert (case linked_conn k of
                    None \<Rightarrow> True
                  | Some l \<Rightarrow> linked_conn (h l) = Some conn)
        ''conn->linked_conn->linked_conn == conn''
     (tor_assert (linked_conn k = None \<or> linked k) ''conn->linked''
     (tor_assert (\<not> linked k \<or> \<not> SOCKET_OK (sock k)) ''!SOCKET_OK(conn->s)''
     (tor_assert (\<not> 0 < outbuf_flushlen k
                  \<or> (conn_type k = CONN_TYPE_EXIT \<and> state k = EXIT_CONN_STATE_RESOLVING)
                  \<or> writing k \<or> write_blocked_on_bw k
                  \<or> (CONN_IS_EDGE k \<and> edge_blocked_on_circ e))
        ''connection_is_writing(conn) || conn->write_blocked_on_bw''
     (tor_assert (\<not> hold_open_until_flushed k \<or> marked_for_close k \<noteq> 0)
        ''conn->marked_for_close''
     (tor_assert (conn_type k \<noteq> CONN_TYPE_OR \<or> address k \<noteq> None) ''conn->address''
     (tor_assert (conn_type k \<noteq> CONN_TYPE_OR
                  \<or> \<not> OR_CONN_STATE_PROXY_HANDSHAKING < state k \<or> tls k)
        ''or_conn->tls''
     (tor_assert (conn_type k \<noteq> CONN_TYPE_AP
                  \<or> \<not> (chosen_exit_optional e \<or> chosen_exit_retries e) \<or> chosen_exit_name e)
        ''entry_conn->chosen_exit_name''
     (tor_assert (conn_type k \<noteq> CONN_TYPE_AP \<or> socks_request e)
        ''entry_conn->socks_request''
     (tor_assert (conn_type k \<noteq> CONN_TYPE_AP \<or> state k \<noteq> AP_CONN_STATE_OPEN
                  \<or> socks_has_finished e)
        ''entry_conn->socks_request->has_finished''
     (tor_assert (conn_type k \<noteq> CONN_TYPE_AP \<or> state k \<noteq> AP_CONN_STATE_OPEN
                  \<or> marked_for_close k \<noteq> 0 \<or> cpath_layer e)
        ''ENTRY_TO_EDGE_CONN(entry_conn)->cpath_layer''
     (tor_assert (conn_type k \<noteq> CONN_TYPE_AP \<or> state k \<noteq> AP_CONN_STATE_OPEN
                  \<or> marked_for_close k \<noteq> 0 \<or> cpath_layer_ok e)
        ''assert_cpath_layer_ok''
     (tor_assert (conn_type k \<noteq> CONN_TYPE_EXIT
                  \<or> purpose k = EXIT_PURPOSE_CONNECT \<or> purpose k = EXIT_PURPOSE_RESOLVE)
        ''conn->purpose == EXIT_PURPOSE_CONNECT || conn->purpose == EXIT_PURPOSE_RESOLVE''
     (tor_assert (CONN_IS_EDGE k \<or> conn_type k = CONN_TYPE_DIR \<or> purpose k = 0)
        ''!conn->purpose''
     (case conn_type k of
        CONN_TYPE_OR \<Rightarrow>
          tor_assert (OR_CONN_STATE_MIN \<le> state k) ''conn->state >= _OR_CONN_STATE_MIN''
         (tor_assert (state k \<le> OR_CONN_STATE_MAX) ''conn->state <= _OR_CONN_STATE_MAX''
         (tor_assert (0 \<le> n_circuits k) ''TO_OR_CONN(conn)->n_circuits >= 0'' (Inr ())))
      | CONN_TYPE_EXIT \<Rightarrow>
          tor_assert (EXIT_CONN_STATE_MIN \<le> state k) ''conn->state >= _EXIT_CONN_STATE_MIN''
         (tor_assert (state k \<le> EXIT_CONN_STATE_MAX) ''conn->state <= _EXIT_CONN_STATE_MAX''
         (tor_assert (EXIT_PURPOSE_MIN \<le> purpose k) ''conn->purpose >= _EXIT_PURPOSE_MIN''
         (tor_assert (purpose k \<le> EXIT_PURPOSE_MAX) ''conn->purpose <= _EXIT_PURPOSE_MAX''
            (Inr ()))))
      | CONN_TYPE_AP \<Rightarrow>
          tor_assert (AP_CONN_STATE_MIN \<le> state k) ''conn->state >= _AP_CONN_STATE_MIN''
         (tor_assert (state k \<le> AP_CONN_STATE_MAX) ''conn->state <= _AP_CONN_STATE_MAX''
         (tor_assert (socks_request e) ''TO_ENTRY_CONN(conn)->socks_request'' (Inr ())))
      | CONN_TYPE_DIR \<Rightarrow>
          tor_assert (DIR_CONN_STATE_MIN \<le> state k) ''conn->state >= _DIR_CONN_STATE_MIN''
         (tor_assert (state k \<le> DIR_CONN_STATE_MAX) ''conn->state <= _DIR_CONN_STATE_MAX''
         (tor_assert (DIR_PURPOSE_MIN \<le> purpose k) ''conn->purpose >= _DIR_PURPOSE_MIN''
         (tor_assert (purpose k \<le> DIR_PURPOSE_MAX) ''conn->purpose <= _DIR_PURPOSE_MAX''
            (Inr ()))))
      | CONN_TYPE_CPUWORKER \<Rightarrow>
          tor_assert (CPUWORKER_STATE_MIN \<le> state k) ''conn->state >= _CPUWORKER_STATE_MIN''
         (tor_assert (state k \<le> CPUWORKER_STATE_MAX) ''conn->state <= _CPUWORKER_STATE_MAX''
            (Inr ()))
      | CONN_TYPE_CONTROL \<Rightarrow>
          tor_assert (CONTROL_CONN_STATE_MIN \<le> state k) ''conn->state >= _CONTROL_CONN_STATE_MIN''
         (tor_assert (state k \<le> CONTROL_CONN_STATE_MAX) ''conn->state <= _CONTROL_CONN_STATE_MAX''
            (Inr ()))
      | _ \<Rightarrow>
          tor_assert (state k = LISTENER_STATE_READY) ''conn->state == LISTENER_STATE_READY''
            (Inr ())))))))))))))))))"

text \<open>
  \<^verbatim>\<open>_connection_mark_for_close(connection_t *conn, int line, const char *file)\<close>,
  reached through the macro \<^verbatim>\<open>connection_mark_for_close(c)\<close>, which passes the line
  and the file of the call. \<open>now\<close> is \<^verbatim>\<open>time(NULL)\<close>. \<^verbatim>\<open>tor_fragile_assert()\<close> does
  nothing.
\<close>

definition connection_mark_for_close ::
  "io_env \<Rightarrow> time_t \<Rightarrow> cref \<Rightarrow> int \<Rightarrow> string option \<Rightarrow> tor_state \<Rightarrow> abort + tor_state" where
  "connection_mark_for_close io now conn line file s =
     (case assert_connection_ok io (conns s) conn of
        Inl a \<Rightarrow> Inl a
      | Inr _ \<Rightarrow>
          if line = 0 then Inl (Assertion_failed ''line'')
          else if \<not> line < 2 ^ 16 then Inl (Assertion_failed ''line < 1<<16'')
          else if file = None then Inl (Assertion_failed ''file'')
          else if marked_for_close (conns s conn) \<noteq> 0 then
            Inr (s\<lparr>bug_log := bug_log s @ [''Duplicate call to connection_mark_for_close'']\<rparr>)
          else
            (let s = conn_update conn (\<lambda>c. c\<lparr>marked_for_close := nat (line mod 2 ^ 16)\<rparr>) s;
                 s = conn_update conn (\<lambda>c. c\<lparr>marked_for_close_file := file\<rparr>) s;
                 s = add_connection_to_closeable_list conn s
             in Inr (conn_update conn (\<lambda>c. c\<lparr>timestamp_lastwritten := now\<rparr>) s)))"

subsection \<open>Sizing the per-connection token buckets\<close>

record or_options_t =
  BandwidthRate :: "64 word"
  BandwidthBurst :: "64 word"
  RelayBandwidthRate :: "64 word"
  RelayBandwidthBurst :: "64 word"
  PerConnBWRate :: "64 word"
  PerConnBWBurst :: "64 word"

text \<open>The cast \<^verbatim>\<open>(int)\<close> of a \<^verbatim>\<open>uint64_t\<close>.\<close>

definition int_of_uint64 :: "64 word \<Rightarrow> int" where
  "int_of_uint64 x = int_wrap (uint x)"

definition INT32_MAX :: int where
  "INT32_MAX = 2 ^ 31 - 1"

text \<open>
  What the directory code (\<^verbatim>\<open>networkstatus.c\<close>, \<^verbatim>\<open>routerlist.c\<close>, not among the
  sources) answers: whether \<^verbatim>\<open>router_get_consensus_status_by_id\<close> and
  \<^verbatim>\<open>router_get_by_id_digest\<close> return an entry for a digest, and the value of
  \<^verbatim>\<open>networkstatus_get_param(NULL, name, default, min, max)\<close>.
\<close>

record directory_t =
  router_get_consensus_status_by_id :: "digest \<Rightarrow> bool"
  router_get_by_id_digest :: "digest \<Rightarrow> bool"
  networkstatus_get_param :: "string \<Rightarrow> int \<Rightarrow> int \<Rightarrow> int \<Rightarrow> int"

definition connection_or_digest_is_known_relay :: "directory_t \<Rightarrow> digest \<Rightarrow> bool" where
  "connection_or_digest_is_known_relay dir id_digest =
     (if router_get_consensus_status_by_id dir id_digest then True
      else if router_get_by_id_digest dir id_digest then True
      else False)"

text \<open>
  \<^verbatim>\<open>connection_or_update_token_buckets_helper(or_connection_t *conn, int reset,
  const or_options_t *options)\<close>, the branch without bufferevents.
\<close>

definition connection_or_update_token_buckets_helper ::
  "directory_t \<Rightarrow> or_options_t \<Rightarrow> bool \<Rightarrow> or_connection_t \<Rightarrow> or_connection_t" where
  "connection_or_update_token_buckets_helper dir options reset conn =
     (let (rate, burst) =
        (if connection_or_digest_is_known_relay dir (identity_digest conn) then
           (int_of_uint64 (BandwidthRate options), int_of_uint64 (BandwidthBurst options))
         else
           ((if PerConnBWRate options \<noteq> 0 then int_of_uint64 (PerConnBWRate options)
             else networkstatus_get_param dir ''perconnbwrate''
                    (int_of_uint64 (BandwidthRate options)) 1 INT32_MAX),
            (if PerConnBWBurst options \<noteq> 0 then int_of_uint64 (PerConnBWBurst options)
             else networkstatus_get_param dir ''perconnbwburst''
                    (int_of_uint64 (BandwidthBurst options)) 1 INT32_MAX)));
          conn = conn\<lparr>bandwidthrate := rate, bandwidthburst := burst\<rparr>
      in if reset then conn\<lparr>read_bucket := burst, write_bucket := burst\<rparr>
         else
           (let conn = (if read_bucket conn > burst then conn\<lparr>read_bucket := burst\<rparr> else conn)
            in if write_bucket conn > burst then conn\<lparr>write_bucket := burst\<rparr> else conn))"

text \<open>
  Modelled from the spec: \<^verbatim>\<open>connection_speaks_cells\<close> is not among the sources.
  Section 4.3: the unit is the cell size for OR links; the connections that speak cells
  are those of type OR.
\<close>

definition connection_speaks_cells :: "'a connection_t_scheme \<Rightarrow> bool" where
  "connection_speaks_cells conn \<longleftrightarrow> conn_type conn = CONN_TYPE_OR"

text \<open>
  \<^verbatim>\<open>connection_or_update_token_buckets(smartlist_t *conns, const or_options_t
  *options)\<close>, called when the set of relays or the limits have changed.
\<close>

definition connection_or_update_token_buckets ::
  "directory_t \<Rightarrow> or_options_t \<Rightarrow> cref list \<Rightarrow> tor_state \<Rightarrow> tor_state" where
  "connection_or_update_token_buckets dir options cs s =
     fold (\<lambda>p s. if connection_speaks_cells (conns s p)
                  then conn_update p (connection_or_update_token_buckets_helper dir options False) s
                  else s) cs s"


subsection \<open>Running out of tokens, and the refill\<close>

definition CLIENT_IDLE_TIME_FOR_PRIORITY :: int where
  "CLIENT_IDLE_TIME_FOR_PRIORITY = 30"

text \<open>
  Modelled from the spec: the macro \<^verbatim>\<open>DIR_CONN_IS_SERVER\<close> is defined in the absent
  \<^verbatim>\<open>or.h\<close>. Section 4.3: a directory link serving data outward, that is, one whose
  purpose is \<^verbatim>\<open>DIR_PURPOSE_SERVER\<close>.
\<close>

definition DIR_CONN_IS_SERVER :: "'a connection_t_scheme \<Rightarrow> bool" where
  "DIR_CONN_IS_SERVER conn \<longleftrightarrow> purpose conn = DIR_PURPOSE_SERVER"

definition connection_counts_as_relayed_traffic :: "or_connection_t \<Rightarrow> time_t \<Rightarrow> bool" where
  "connection_counts_as_relayed_traffic conn now =
     (if conn_type conn = CONN_TYPE_OR
         \<and> int64_wrap (client_used conn + CLIENT_IDLE_TIME_FOR_PRIORITY) < now
      then True
      else if conn_type conn = CONN_TYPE_DIR \<and> DIR_CONN_IS_SERVER conn then True
      else False)"

text \<open>
  Modelled from the spec: \<^verbatim>\<open>connection_stop_reading\<close>, \<^verbatim>\<open>connection_start_reading\<close>,
  \<^verbatim>\<open>connection_stop_writing\<close> and \<^verbatim>\<open>connection_start_writing\<close> are in \<^verbatim>\<open>main.c\<close>,
  which is not among the sources. Section 8, scenario 5: the read (write) interest of the
  socket is cleared, and enabled again.
\<close>

definition connection_stop_reading :: "or_connection_t \<Rightarrow> or_connection_t" where
  "connection_stop_reading conn = conn\<lparr>reading := False\<rparr>"

definition connection_start_reading :: "or_connection_t \<Rightarrow> or_connection_t" where
  "connection_start_reading conn = conn\<lparr>reading := True\<rparr>"

definition connection_stop_writing :: "or_connection_t \<Rightarrow> or_connection_t" where
  "connection_stop_writing conn = conn\<lparr>writing := False\<rparr>"

definition connection_start_writing :: "or_connection_t \<Rightarrow> or_connection_t" where
  "connection_start_writing conn = conn\<lparr>writing := True\<rparr>"

text \<open>
  \<^verbatim>\<open>connection_consider_empty_read_buckets(connection_t *conn)\<close> and its twin for
  writing; \<open>now\<close> is \<^verbatim>\<open>approx_time()\<close>.
\<close>

definition connection_consider_empty_read_buckets :: "time_t \<Rightarrow> cref \<Rightarrow> tor_state \<Rightarrow> tor_state" where
  "connection_consider_empty_read_buckets now conn s =
     (let c = conns s conn;
          pause = conn_update conn
                    (\<lambda>c. connection_stop_reading (c\<lparr>read_blocked_on_bw := True\<rparr>)) s
      in if global_read_bucket s \<le> 0 then pause
         else if connection_counts_as_relayed_traffic c now \<and> global_relayed_read_bucket s \<le> 0
         then pause
         else if connection_speaks_cells c \<and> state c = OR_CONN_STATE_OPEN \<and> read_bucket c \<le> 0
         then pause
         else s)"

definition connection_consider_empty_write_buckets :: "time_t \<Rightarrow> cref \<Rightarrow> tor_state \<Rightarrow> tor_state" where
  "connection_consider_empty_write_buckets now conn s =
     (let c = conns s conn;
          pause = conn_update conn
                    (\<lambda>c. connection_stop_writing (c\<lparr>write_blocked_on_bw := True\<rparr>)) s
      in if global_write_bucket s \<le> 0 then pause
         else if connection_counts_as_relayed_traffic c now \<and> global_relayed_write_bucket s \<le> 0
         then pause
         else if connection_speaks_cells c \<and> state c = OR_CONN_STATE_OPEN \<and> write_bucket c \<le> 0
         then pause
         else s)"

definition connection_bucket_should_increase :: "int \<Rightarrow> or_connection_t \<Rightarrow> bool" where
  "connection_bucket_should_increase bucket conn =
     (if state conn \<noteq> OR_CONN_STATE_OPEN then False
      else if bucket \<ge> bandwidthburst conn then False
      else True)"

text \<open>
  The body of the loop over the connection array in \<^verbatim>\<open>connection_bucket_refill\<close>, as
  a function of the connection object, in its three blocks: the refill of the buckets
  of a connection that speaks cells, the wake-up for reading and the wake-up for
  writing. The global buckets are read from the state.
\<close>

definition refill_conn_buckets :: "int \<Rightarrow> or_connection_t \<Rightarrow> or_connection_t" where
  "refill_conn_buckets milliseconds_elapsed conn =
     (if connection_speaks_cells conn then
        (let orbandwidthrate = bandwidthrate conn;
             orbandwidthburst = bandwidthburst conn;
             conn = (if connection_bucket_should_increase (read_bucket conn) conn
                     then conn\<lparr>read_bucket := connection_bucket_refill_helper
                            (read_bucket conn) orbandwidthrate orbandwidthburst
                            milliseconds_elapsed\<rparr>
                     else conn)
         in if connection_bucket_should_increase (write_bucket conn) conn
            then conn\<lparr>write_bucket := connection_bucket_refill_helper
                   (write_bucket conn) orbandwidthrate orbandwidthburst
                   milliseconds_elapsed\<rparr>
            else conn)
      else conn)"

definition refill_conn_wake_read :: "time_t \<Rightarrow> tor_state \<Rightarrow> or_connection_t \<Rightarrow> or_connection_t" where
  "refill_conn_wake_read now s conn =
     (if read_blocked_on_bw conn
         \<and> global_read_bucket s > 0
         \<and> (\<not> connection_counts_as_relayed_traffic conn now
              \<or> global_relayed_read_bucket s > 0)
         \<and> (\<not> connection_speaks_cells conn
              \<or> state conn \<noteq> OR_CONN_STATE_OPEN
              \<or> read_bucket conn > 0)
      then connection_start_reading (conn\<lparr>read_blocked_on_bw := False\<rparr>)
      else conn)"

definition refill_conn_wake_write :: "time_t \<Rightarrow> tor_state \<Rightarrow> or_connection_t \<Rightarrow> or_connection_t" where
  "refill_conn_wake_write now s conn =
     (if write_blocked_on_bw conn
         \<and> global_write_bucket s > 0
         \<and> (\<not> connection_counts_as_relayed_traffic conn now
              \<or> global_relayed_write_bucket s > 0)
         \<and> (\<not> connection_speaks_cells conn
              \<or> state conn \<noteq> OR_CONN_STATE_OPEN
              \<or> write_bucket conn > 0)
      then connection_start_writing (conn\<lparr>write_blocked_on_bw := False\<rparr>)
      else conn)"

definition connection_bucket_refill_conn ::
  "int \<Rightarrow> time_t \<Rightarrow> tor_state \<Rightarrow> or_connection_t \<Rightarrow> or_connection_t" where
  "connection_bucket_refill_conn milliseconds_elapsed now s conn =
     refill_conn_wake_write now s
       (refill_conn_wake_read now s (refill_conn_buckets milliseconds_elapsed conn))"

text \<open>\<^verbatim>\<open>connection_bucket_refill(int milliseconds_elapsed, time_t now)\<close>.\<close>

definition connection_bucket_refill ::
  "or_options_t \<Rightarrow> int \<Rightarrow> time_t \<Rightarrow> tor_state \<Rightarrow> abort + tor_state" where
  "connection_bucket_refill options milliseconds_elapsed now s =
     (let bandwidthrate = int_of_uint64 (BandwidthRate options);
          bandwidthburst = int_of_uint64 (BandwidthBurst options);
          (relayrate, relayburst) =
            (if RelayBandwidthRate options \<noteq> 0
             then (int_of_uint64 (RelayBandwidthRate options),
                   int_of_uint64 (RelayBandwidthBurst options))
             else (bandwidthrate, bandwidthburst))
      in if \<not> milliseconds_elapsed \<ge> 0
         then Inl (Assertion_failed ''milliseconds_elapsed >= 0'')
         else
           (let s = s\<lparr>write_buckets_empty_last_second :=
                       (global_relayed_write_bucket s \<le> 0 \<or> global_write_bucket s \<le> 0)\<rparr>;
                s = s\<lparr>global_read_bucket := connection_bucket_refill_helper
                       (global_read_bucket s) bandwidthrate bandwidthburst milliseconds_elapsed\<rparr>;
                s = s\<lparr>global_write_bucket := connection_bucket_refill_helper
                       (global_write_bucket s) bandwidthrate bandwidthburst milliseconds_elapsed\<rparr>;
                s = s\<lparr>global_relayed_read_bucket := connection_bucket_refill_helper
                       (global_relayed_read_bucket s) relayrate relayburst milliseconds_elapsed\<rparr>;
                s = s\<lparr>global_relayed_write_bucket := connection_bucket_refill_helper
                       (global_relayed_write_bucket s) relayrate relayburst milliseconds_elapsed\<rparr>
            in Inr (fold (\<lambda>conn s. conn_update conn
                            (connection_bucket_refill_conn milliseconds_elapsed now s) s)
                      (connection_array s) s)))"

text \<open>
  The condition under which \<^verbatim>\<open>connection_consider_empty_read_buckets\<close> pauses a
  connection, as the claim words it: one of the buckets that apply to the connection
  (the global one, the relayed one if its traffic counts as relayed, its own if it is an
  open OR connection) is empty. Likewise for writing.
\<close>

definition read_buckets_exhausted :: "time_t \<Rightarrow> cref \<Rightarrow> tor_state \<Rightarrow> bool" where
  "read_buckets_exhausted now conn s \<longleftrightarrow>
     global_read_bucket s \<le> 0
   \<or> (connection_counts_as_relayed_traffic (conns s conn) now \<and> global_relayed_read_bucket s \<le> 0)
   \<or> (connection_speaks_cells (conns s conn) \<and> state (conns s conn) = OR_CONN_STATE_OPEN
        \<and> read_bucket (conns s conn) \<le> 0)"

definition write_buckets_exhausted :: "time_t \<Rightarrow> cref \<Rightarrow> tor_state \<Rightarrow> bool" where
  "write_buckets_exhausted now conn s \<longleftrightarrow>
     global_write_bucket s \<le> 0
   \<or> (connection_counts_as_relayed_traffic (conns s conn) now \<and> global_relayed_write_bucket s \<le> 0)
   \<or> (connection_speaks_cells (conns s conn) \<and> state (conns s conn) = OR_CONN_STATE_OPEN
        \<and> write_bucket (conns s conn) \<le> 0)"

subsection \<open>The handshake transcript\<close>




































subsection \<open>The identity map\<close>

definition tor_digest_is_zero :: "digest \<Rightarrow> bool" where
  "tor_digest_is_zero d \<longleftrightarrow> d = 0"

text \<open>
  Modelled from the spec: the digestmap (\<^verbatim>\<open>container.c\<close>) is not among the sources.
  Section 3: a mapping from identity digest to the head of a chain. \<^verbatim>\<open>digestmap_set\<close>
  replaces the value of a key (and returns the old one, which is \<open>digestmap_get\<close> before
  the call); \<^verbatim>\<open>digestmap_remove\<close> drops the key.
\<close>

definition digestmap_get :: "(digest \<times> cref) list \<Rightarrow> digest \<Rightarrow> cref option" where
  "digestmap_get m k = map_of m k"

definition digestmap_remove :: "(digest \<times> cref) list \<Rightarrow> digest \<Rightarrow> (digest \<times> cref) list" where
  "digestmap_remove m k = filter (\<lambda>e. fst e \<noteq> k) m"

definition digestmap_set :: "(digest \<times> cref) list \<Rightarrow> digest \<Rightarrow> cref \<Rightarrow> (digest \<times> cref) list" where
  "digestmap_set m k v = (k, v) # digestmap_remove m k"

text \<open>
  The \<^verbatim>\<open>while\<close> loop of \<^verbatim>\<open>connection_or_remove_from_identity_map\<close>: walk the chain
  from \<open>tmp\<close> and unlink \<open>conn\<close> where it is found. On a chain that runs in a circle
  without \<open>conn\<close> the loop does not end; the result is \<open>None\<close> then.
\<close>

partial_function (option) identity_chain_unlink ::
  "(cref \<Rightarrow> or_connection_t) \<Rightarrow> cref \<Rightarrow> cref \<Rightarrow> (cref \<Rightarrow> or_connection_t) option" where
  "identity_chain_unlink h tmp conn =
     (case next_with_same_id (h tmp) of
        None \<Rightarrow> Some h
      | Some n \<Rightarrow>
          if n = conn
          then Some (h(tmp := (h tmp)\<lparr>next_with_same_id := next_with_same_id (h conn)\<rparr>))
          else identity_chain_unlink h n conn)"

text \<open>\<^verbatim>\<open>connection_or_remove_from_identity_map(or_connection_t *conn)\<close>.\<close>

definition connection_or_remove_from_identity_map :: "cref \<Rightarrow> tor_state \<Rightarrow> tor_state option" where
  "connection_or_remove_from_identity_map conn s =
     (case orconn_identity_map s of
        None \<Rightarrow> Some s
      | Some m \<Rightarrow>
          (case digestmap_get m (identity_digest (conns s conn)) of
             None \<Rightarrow>
               Some (if \<not> tor_digest_is_zero (identity_digest (conns s conn))
                     then s\<lparr>bug_log := bug_log s
                            @ [''Didn't find connection on identity map when trying to remove it.'']\<rparr>
                     else s)
           | Some tmp \<Rightarrow>
               (let unlinked =
                  (if conn = tmp then
                     (case next_with_same_id (conns s conn) of
                        Some n \<Rightarrow> Some (s\<lparr>orconn_identity_map :=
                                    Some (digestmap_set m (identity_digest (conns s conn)) n)\<rparr>)
                      | None \<Rightarrow> Some (s\<lparr>orconn_identity_map :=
                                    Some (digestmap_remove m (identity_digest (conns s conn)))\<rparr>))
                   else map_option (\<lambda>h. s\<lparr>conns := h\<rparr>) (identity_chain_unlink (conns s) tmp conn))
                in map_option
                     (conn_update conn (\<lambda>c. c\<lparr>identity_digest := 0, next_with_same_id := None\<rparr>))
                     unlinked)))"

text \<open>\<^verbatim>\<open>connection_or_clear_identity_map(void)\<close>.\<close>

definition connection_or_clear_identity_map :: "tor_state \<Rightarrow> tor_state" where
  "connection_or_clear_identity_map s =
     (fold (\<lambda>conn s. if conn_type (conns s conn) = CONN_TYPE_OR
                      then conn_update conn
                             (\<lambda>c. c\<lparr>identity_digest := 0, next_with_same_id := None\<rparr>) s
                      else s)
        (connection_array s) s)\<lparr>orconn_identity_map := None\<rparr>"

text \<open>
  The testing loop at the end of \<^verbatim>\<open>connection_or_set_identity_digest\<close>: every
  connection behind the new head has the digest and is not the new head.
\<close>

partial_function (option) identity_chain_check ::
  "(cref \<Rightarrow> or_connection_t) \<Rightarrow> digest \<Rightarrow> cref \<Rightarrow> cref \<Rightarrow> (abort + unit) option" where
  "identity_chain_check h digest conn tmp =
     (if identity_digest (h tmp) \<noteq> digest
      then Some (Inl (Assertion_failed ''tor_memeq(tmp->identity_digest, digest, DIGEST_LEN)''))
      else if tmp = conn then Some (Inl (Assertion_failed ''tmp != conn''))
      else case next_with_same_id (h tmp) of
             None \<Rightarrow> Some (Inr ())
           | Some n \<Rightarrow> identity_chain_check h digest conn n)"

text \<open>
  \<^verbatim>\<open>connection_or_set_identity_digest(or_connection_t *conn, const char *digest)\<close>.
\<close>

definition connection_or_set_identity_digest ::
  "cref \<Rightarrow> digest \<Rightarrow> tor_state \<Rightarrow> (abort + tor_state) option" where
  "connection_or_set_identity_digest conn digest s =
     (let s = (if orconn_identity_map s = None then s\<lparr>orconn_identity_map := Some []\<rparr> else s)
      in if identity_digest (conns s conn) = digest then Some (Inr s)
         else
           (case (if \<not> tor_digest_is_zero (identity_digest (conns s conn))
                  then connection_or_remove_from_identity_map conn s else Some s) of
              None \<Rightarrow> None
            | Some s \<Rightarrow>
                (let s = conn_update conn (\<lambda>c. c\<lparr>identity_digest := digest\<rparr>) s
                 in if tor_digest_is_zero digest then Some (Inr s)
                    else
                      (case orconn_identity_map s of
                         None \<Rightarrow> Some (Inl Null_dereference)
                       | Some m \<Rightarrow>
                           (let tmp = digestmap_get m digest;
                                s = s\<lparr>orconn_identity_map := Some (digestmap_set m digest conn)\<rparr>;
                                s = conn_update conn (\<lambda>c. c\<lparr>next_with_same_id := tmp\<rparr>) s
                            in map_option (\<lambda>r. case r of Inl a \<Rightarrow> Inl a | Inr _ \<Rightarrow> Inr s)
                                 (case tmp of
                                    None \<Rightarrow> Some (Inr ())
                                  | Some t \<Rightarrow> identity_chain_check (conns s) digest conn t))))))"

text \<open>
  The chain that starts at a pointer, as the list of its connections, and the invariant
  of the identity map: the keys are distinct and not zero, and under every key there is
  a chain that ends, holds no connection twice, and holds only connections with the
  digest of the key.
\<close>

primrec identity_chain :: "(cref \<Rightarrow> or_connection_t) \<Rightarrow> cref option \<Rightarrow> cref list \<Rightarrow> bool" where
  "identity_chain h p [] \<longleftrightarrow> p = None"
| "identity_chain h p (x # xs) \<longleftrightarrow> p = Some x \<and> identity_chain h (next_with_same_id (h x)) xs"

definition identity_entry_ok :: "(cref \<Rightarrow> or_connection_t) \<Rightarrow> digest \<Rightarrow> cref \<Rightarrow> bool" where
  "identity_entry_ok h d p \<longleftrightarrow>
     d \<noteq> 0
   \<and> (\<exists>xs. identity_chain h (Some p) xs \<and> distinct xs
         \<and> (\<forall>q \<in> set xs. identity_digest (h q) = d))"

definition identity_map_ok :: "tor_state \<Rightarrow> bool" where
  "identity_map_ok s \<longleftrightarrow>
     (\<forall>m. orconn_identity_map s = Some m \<longrightarrow>
        distinct (map fst m)
      \<and> (\<forall>e \<in> set m. identity_entry_ok (conns s) (fst e) (snd e)))"

subsection \<open>Choosing a connection to extend over\<close>











subsection \<open>Flagging connections as bad for new circuits\<close>

definition TIME_BEFORE_OR_CONN_IS_TOO_OLD :: int where
  "TIME_BEFORE_OR_CONN_IS_TOO_OLD = 60 * 60 * 24 * 7"











subsection \<open>Sample objects\<close>

text \<open>
  An OR connection as \<^verbatim>\<open>tor_malloc_zero\<close> leaves it, a state with no connection
  marked and no identity map, a directory that knows two relays, and a configuration
  with per-connection limits. The examples below are built from them.
\<close>

definition conn0 :: or_connection_t where
  "conn0 = \<lparr>conn_type = CONN_TYPE_OR, state = 0, purpose = 0, marked_for_close = 0,
     marked_for_close_file = None, hold_open_until_flushed = False, timestamp_created = 0,
     timestamp_lastwritten = 0, read_blocked_on_bw = False, write_blocked_on_bw = False,
     reading = False, writing = False, outbuf = [], magic = 0, sock = 0, linked = False,
     linked_conn = None, linked_conn_is_closed = False, outbuf_flushlen = 0,
     in_flushed_some = False, write_event = False, address = None, addr = Addr_unspec,
     identity_digest = 0, next_with_same_id = None, real_addr = Addr_unspec, link_proto = 0,
     is_canonical = False, is_bad_for_new_circs = False, is_connection_with_client = False,
     is_outgoing = False, n_circuits = 0, client_used = 0, bandwidthrate = 0,
     bandwidthburst = 0, read_bucket = 0, write_bucket = 0, handshake_state = None,
     timestamp_last_added_nonpadding = 0, tls = False\<rparr>"

text \<open>
  An OR connection as \<^verbatim>\<open>or_connection_new\<close> would hand it out, connecting on socket
  7, and a state that holds it under the address 5. Nothing is asked of edge
  connections in \<open>io0\<close>, \<^verbatim>\<open>write_to_buf\<close> does not fail, and the flush reports an
  error.
\<close>

definition conn_new :: or_connection_t where
  "conn_new = conn0\<lparr>state := OR_CONN_STATE_CONNECTING, magic := OR_CONNECTION_MAGIC,
     sock := 7, write_event := True, address := Some ''192.0.2.1''\<rparr>"

definition state0 :: tor_state where
  "state0 = \<lparr>conns = (\<lambda>_. conn0), connection_array = [], closeable_connection_lst = [],
     orconn_identity_map = None, global_read_bucket = 0, global_write_bucket = 0,
     global_relayed_read_bucket = 0, global_relayed_write_bucket = 0,
     write_buckets_empty_last_second = False, bug_log = []\<rparr>"

definition state8 :: tor_state where
  "state8 = state0\<lparr>conns := (\<lambda>_. conn0)(5 := conn_new), connection_array := [5]\<rparr>"

definition io0 :: io_env where
  "io0 = \<lparr>edge = (\<lambda>_. \<lparr>edge_blocked_on_circ = False, chosen_exit_optional = False,
             chosen_exit_retries = False, chosen_exit_name = False, socks_request = False,
             socks_has_finished = False, cpath_layer = False, cpath_layer_ok = False\<rparr>),
           write_to_buf_fails = (\<lambda>_ _. False), CountPrivateBandwidth = False,
           tor_addr_is_internal = (\<lambda>_. False),
           flush_outbuf = (\<lambda>_ _ s. Inr (- 1, s))\<rparr>"

definition dir0 :: directory_t where
  "dir0 = \<lparr>router_get_consensus_status_by_id = (\<lambda>d. d = 7),
            router_get_by_id_digest = (\<lambda>d. d = 8),
            networkstatus_get_param = (\<lambda>name dflt lo hi. 50)\<rparr>"

definition options0 :: or_options_t where
  "options0 = \<lparr>BandwidthRate = 5000, BandwidthBurst = 10000, RelayBandwidthRate = 0,
     RelayBandwidthBurst = 0, PerConnBWRate = 100, PerConnBWBurst = 200\<rparr>"

definition state9 :: tor_state where
  "state9 = state0\<lparr>conns := (\<lambda>_. conn0)(5 := conn0\<lparr>state := OR_CONN_STATE_OPEN,
      reading := True, writing := True, bandwidthrate := 100, bandwidthburst := 200\<rparr>),
      connection_array := [5]\<rparr>"





text \<open>
  An identity map with one key: connection 1 is the head of its chain, connection 2
  follows it, connection 3 has no identity.
\<close>

definition state4 :: tor_state where
  "state4 = state0\<lparr>conns := (\<lambda>_. conn0)
       (1 := conn0\<lparr>identity_digest := 7, next_with_same_id := Some 2\<rparr>,
        2 := conn0\<lparr>identity_digest := 7\<rparr>),
     connection_array := [1, 2, 3], orconn_identity_map := Some [(7, 1)]\<rparr>"



section \<open>Properties\<close>

subsection \<open>C integers\<close>

lemma int_wrap_id: "is_int x \<Longrightarrow> int_wrap x = x"
  by (simp add: is_int_def int_wrap_def)

lemma int64_wrap_id: "- (2 ^ 63) \<le> x \<Longrightarrow> x < 2 ^ 63 \<Longrightarrow> int64_wrap x = x"
  by (simp add: int64_wrap_def)

lemma int_wrap_high:
  assumes "2 ^ 31 \<le> x" and "x < 2 ^ 32"
  shows "int_wrap x < 0"
proof -
  have "(x + 2 ^ 31) mod 2 ^ 32 = x + 2 ^ 31 - 2 ^ 32"
    using assms by (simp add: mod_pos_geq)
  then show ?thesis
    using assms by (simp add: int_wrap_def)
qed

lemma c_div_nonneg: "0 \<le> a \<Longrightarrow> 0 < b \<Longrightarrow> c_div a b = a div b"
  by (cases "a = 0") (simp_all add: c_div_def)

lemma int_product_bound:
  assumes "0 \<le> a" "a < 2 ^ 31" "0 \<le> b" "b < 2 ^ 31"
  shows "a * b < (2 ^ 63 :: int)"
proof -
  have "a * b \<le> 2 ^ 31 * 2 ^ 31"
    using assms by (intro mult_mono) simp_all
  also have "\<dots> < (2 ^ 63 :: int)" by simp
  finally show ?thesis .
qed

subsection \<open>Token buckets\<close>

lemma refill_incr_nonneg:
  assumes "is_int rate" "is_int ms" "0 \<le> rate" "0 \<le> ms"
  shows "0 \<le> c_div (int64_wrap (rate * ms)) 1000"
proof -
  have p: "0 \<le> rate * ms" using assms by simp
  have "rate * ms < 2 ^ 63"
    using assms by (intro int_product_bound) (simp_all add: is_int_def)
  with p have "int64_wrap (rate * ms) = rate * ms"
    by (intro int64_wrap_id) simp_all
  with p show ?thesis
    by (simp add: c_div_nonneg pos_imp_zdiv_nonneg_iff)
qed

text \<open>
  C10. One refill step with non-negative rate, burst and elapsed time never lowers the
  bucket, never lifts a bucket that was at or below burst above burst, and leaves a
  bucket that holds more than burst unchanged.
\<close>

theorem refill_helper_monotone_capped:
  assumes "is_int bucket" "is_int rate" "is_int burst" "is_int ms"
    and "0 \<le> rate" "0 \<le> burst" "0 \<le> ms"
  shows "bucket \<le> connection_bucket_refill_helper bucket rate burst ms
       \<and> (bucket \<le> burst \<longrightarrow> connection_bucket_refill_helper bucket rate burst ms \<le> burst)
       \<and> (burst < bucket \<longrightarrow> connection_bucket_refill_helper bucket rate burst ms = bucket)"
proof (cases "bucket < burst \<and> ms > 0")
  case False
  then show ?thesis
    by (auto simp: connection_bucket_refill_helper_def)
next
  case True
  define incr where "incr = c_div (int64_wrap (rate * ms)) 1000"
  have incr0: "0 \<le> incr"
    unfolding incr_def using assms by (intro refill_incr_nonneg)
  show ?thesis
  proof (cases "int_wrap (burst - bucket) < incr")
    case True
    with \<open>bucket < burst \<and> ms > 0\<close> show ?thesis
      by (simp add: connection_bucket_refill_helper_def incr_def Let_def)
  next
    case False
    have small: "burst - bucket < 2 ^ 31"
    proof (rule ccontr)
      assume "\<not> burst - bucket < 2 ^ 31"
      moreover have "burst - bucket < 2 ^ 32"
        using assms by (simp add: is_int_def)
      ultimately have "int_wrap (burst - bucket) < 0"
        by (intro int_wrap_high) simp_all
      with incr0 False show False by simp
    qed
    with True have "is_int (burst - bucket)"
      by (simp add: is_int_def)
    with False have le: "incr \<le> burst - bucket"
      by (simp add: int_wrap_id)
    with incr0 small have "is_int incr"
      by (simp add: is_int_def)
    then have w1: "int_wrap incr = incr" by (rule int_wrap_id)
    have "is_int (bucket + incr)"
      using le incr0 assms by (simp add: is_int_def)
    then have w2: "int_wrap (bucket + incr) = bucket + incr" by (rule int_wrap_id)
    from True False le incr0 show ?thesis
      by (simp add: connection_bucket_refill_helper_def incr_def [symmetric] Let_def w1 w2)
  qed
qed

theorem refill_helper_monotone_capped_witness:
  "is_int 100 \<and> is_int 5000 \<and> is_int 300 \<and> is_int 20
   \<and> connection_bucket_refill_helper 100 5000 300 20 = 200
   \<and> connection_bucket_refill_helper 250 5000 300 20 = 300
   \<and> connection_bucket_refill_helper 400 5000 300 20 = 400"
proof -
  have h: "is_int 100" "is_int 5000" "is_int 300" "is_int 20"
    by (simp_all add: is_int_def)
  have "(100::int) \<le> connection_bucket_refill_helper 100 5000 300 20"
    using refill_helper_monotone_capped [of 100 5000 300 20] h by simp
  then show ?thesis
    using h
    by (simp add: connection_bucket_refill_helper_def c_div_def int_wrap_def
        int64_wrap_def Let_def)
qed

subsection \<open>Byte order\<close>

lemma htons_low_byte: "(ucast (htons Little_endian v) :: uint8_t) = ucast (drop_bit 8 v)"
  unfolding htons_def by (rule bit_word_eqI) (auto simp: bit_simps)

lemma htons_high_byte: "(ucast (drop_bit 8 (htons Little_endian v)) :: uint8_t) = ucast v"
  unfolding htons_def by (rule bit_word_eqI) (auto simp: bit_simps)

text \<open>Whatever the host, the two bytes written are the value in network order.\<close>

lemma network_order_bytes: "uint16_bytes bo (htons bo v) = [ucast (drop_bit 8 v), ucast v]"
proof (cases bo)
  case Little_endian
  then show ?thesis
    by (simp add: uint16_bytes_def htons_low_byte htons_high_byte)
next
  case Big_endian
  then show ?thesis
    by (simp add: uint16_bytes_def htons_def)
qed

lemma network_order_read:
  "ntohs bo (uint16_of_bytes bo (ucast (drop_bit 8 v)) (ucast v)) = v"
  by (cases bo; simp add: uint16_of_bytes_def ntohs_def; rule bit_word_eqI)
    (auto simp: bit_simps)

subsection \<open>Fixed cells\<close>

lemma cell_pack_layout:
  assumes "length body = CELL_NETWORK_SIZE" and "length (payload c) = CELL_PAYLOAD_SIZE"
  shows "cell_pack bo body c =
           [ucast (drop_bit 8 (circ_id c)), ucast (circ_id c), command c] @ payload c"
  using assms
  by (simp add: cell_pack_def set_uint16_def set_uint8_def memcpy_def network_order_bytes
      CELL_NETWORK_SIZE_def CELL_PAYLOAD_SIZE_def)

lemma cell_unpack_layout:
  assumes "length p = CELL_PAYLOAD_SIZE"
  shows "cell_unpack bo ([ucast (drop_bit 8 i), ucast i, k] @ p @ rest) =
           Some \<lparr>circ_id = i, command = k, payload = p\<rparr>"
  using assms
  by (simp add: cell_unpack_def get_uint16_def network_order_read)

text \<open>
  C1, as the code has it. The claim gives 514 bytes; the packed cell has 512: the 2-byte
  circuit id in network order, the command byte and the 509-byte payload. The read loop
  takes a fixed cell off the inbuf in one unit of that size and hands the same cell on.
\<close>

theorem cell_pack_514_counterexample:
  "length (cell_pack Little_endian (replicate CELL_NETWORK_SIZE 0)
      \<lparr>circ_id = 1, command = 3, payload = replicate CELL_PAYLOAD_SIZE 0\<rparr>) \<noteq> 514"
  by (simp add: cell_pack_def set_uint16_def set_uint8_def memcpy_def uint16_bytes_def
      CELL_NETWORK_SIZE_def CELL_PAYLOAD_SIZE_def)

theorem cell_pack_wire_size:
  assumes "length body = CELL_NETWORK_SIZE" and "length (payload c) = CELL_PAYLOAD_SIZE"
  shows "length (cell_pack bo body c) = 512
       \<and> cell_pack bo body c =
           [ucast (drop_bit 8 (circ_id c)), ucast (circ_id c), command c] @ payload c
       \<and> length (payload c) = 509
       \<and> (\<not> var_length_command (command c) \<longrightarrow>
            process_cells_turn bo (cell_pack bo body c @ rest) = Handed (Fixed_cell c) rest)"
proof -
  note lay = cell_pack_layout [OF assms, of bo]
  have len: "length (cell_pack bo body c) = 512"
    using assms(2) by (simp add: lay CELL_PAYLOAD_SIZE_def)
  have turn: "process_cells_turn bo (cell_pack bo body c @ rest) = Handed (Fixed_cell c) rest"
    if "\<not> var_length_command (command c)"
  proof -
    have f: "fetch_var_cell_from_buf bo (cell_pack bo body c @ rest) = Not_var_cell"
      using that by (simp add: fetch_var_cell_from_buf_def lay)
    have t: "take CELL_NETWORK_SIZE (cell_pack bo body c @ rest) = cell_pack bo body c"
      using len by (simp add: CELL_NETWORK_SIZE_def)
    have d: "drop CELL_NETWORK_SIZE (cell_pack bo body c @ rest) = rest"
      using len by (simp add: CELL_NETWORK_SIZE_def)
    have u: "cell_unpack bo (cell_pack bo body c) = Some c"
      using cell_unpack_layout [OF assms(2), of bo "circ_id c" "command c" "[]"]
      by (simp add: lay)
    show ?thesis
      unfolding process_cells_turn_def f t d u using len
      by (simp add: CELL_NETWORK_SIZE_def)
  qed
  from len lay assms(2) turn show ?thesis
    by (simp add: CELL_PAYLOAD_SIZE_def)
qed

theorem cell_pack_wire_size_witness:
  "length (cell_pack Little_endian (replicate 512 0)
      \<lparr>circ_id = 258, command = 3, payload = replicate 509 7\<rparr>) = 512
   \<and> process_cells_turn Little_endian
       (cell_pack Little_endian (replicate 512 0)
          \<lparr>circ_id = 258, command = 3, payload = replicate 509 7\<rparr> @ [1, 2])
     = Handed (Fixed_cell \<lparr>circ_id = 258, command = 3, payload = replicate 509 7\<rparr>) [1, 2]"
proof -
  let ?c = "\<lparr>circ_id = 258, command = 3, payload = replicate 509 7\<rparr>"
  have h1: "length (replicate 512 (0 :: uint8_t)) = CELL_NETWORK_SIZE"
    by (simp add: CELL_NETWORK_SIZE_def)
  have h2: "length (payload ?c) = CELL_PAYLOAD_SIZE"
    by (simp add: CELL_PAYLOAD_SIZE_def)
  have h3: "\<not> var_length_command (command ?c)"
    by (simp add: var_length_command_def)
  from cell_pack_wire_size [OF h1 h2, of Little_endian "[1, 2]"] h3
  show ?thesis by blast
qed

text \<open>
  C2. Unpacking a packed cell gives the cell back, in circuit id, command and payload,
  for every cell whose payload has the fixed payload size; every 16-bit circuit id is
  within the width of the field.
\<close>

theorem cell_unpack_pack_roundtrip:
  assumes "length body = CELL_NETWORK_SIZE" and "length (payload c) = CELL_PAYLOAD_SIZE"
  shows "cell_unpack bo (cell_pack bo body c) = Some c"
  using cell_unpack_layout [OF assms(2), of bo "circ_id c" "command c" "[]"]
  by (simp add: cell_pack_layout [OF assms])

theorem cell_unpack_pack_roundtrip_witness:
  "cell_unpack Big_endian (cell_pack Big_endian (replicate 512 9)
      \<lparr>circ_id = 65535, command = 8, payload = replicate 509 1\<rparr>)
   = Some \<lparr>circ_id = 65535, command = 8, payload = replicate 509 1\<rparr>"
  using cell_unpack_pack_roundtrip [of "replicate 512 9"
      "\<lparr>circ_id = 65535, command = 8, payload = replicate 509 1\<rparr>" Big_endian]
  by (simp add: CELL_NETWORK_SIZE_def CELL_PAYLOAD_SIZE_def)


subsection \<open>Marking for close\<close>

lemma tor_assert_ok: "tor_assert expr msg rest = Inr u \<longleftrightarrow> expr \<and> rest = Inr u"
  by (simp add: tor_assert_def)

text \<open>
  A connection that passes \<^verbatim>\<open>assert_connection_ok\<close> passes it again once it is marked:
  the mark is read where a connection held open must be marked and where an open entry
  connection must have a path unless it is marked, and the marking writes no other field
  that the check reads.
\<close>

lemma assert_connection_ok_marked:
  assumes "assert_connection_ok io h c = Inr ()" and "m \<noteq> 0"
  shows "assert_connection_ok io
      (h(c := (h c)\<lparr>marked_for_close := m, marked_for_close_file := f,
                     timestamp_lastwritten := t\<rparr>)) c = Inr ()"
proof (cases "conn_type (h c)")
  case CONN_TYPE_OR
  with assms show ?thesis
    by (simp add: assert_connection_ok_def tor_assert_ok Let_def CONN_IS_EDGE_def
        split: option.splits)
next
  case CONN_TYPE_EXIT
  with assms show ?thesis
    by (simp add: assert_connection_ok_def tor_assert_ok Let_def CONN_IS_EDGE_def
        split: option.splits)
next
  case CONN_TYPE_AP
  with assms show ?thesis
    by (simp add: assert_connection_ok_def tor_assert_ok Let_def CONN_IS_EDGE_def
        split: option.splits)
next
  case CONN_TYPE_DIR
  with assms show ?thesis
    by (simp add: assert_connection_ok_def tor_assert_ok Let_def CONN_IS_EDGE_def
        split: option.splits)
next
  case CONN_TYPE_CPUWORKER
  with assms show ?thesis
    by (simp add: assert_connection_ok_def tor_assert_ok Let_def CONN_IS_EDGE_def
        split: option.splits)
next
  case CONN_TYPE_CONTROL
  with assms show ?thesis
    by (simp add: assert_connection_ok_def tor_assert_ok Let_def CONN_IS_EDGE_def
        split: option.splits)
next
  case CONN_TYPE_OR_LISTENER
  with assms show ?thesis
    by (simp add: assert_connection_ok_def tor_assert_ok Let_def CONN_IS_EDGE_def
        split: option.splits)
next
  case CONN_TYPE_AP_LISTENER
  with assms show ?thesis
    by (simp add: assert_connection_ok_def tor_assert_ok Let_def CONN_IS_EDGE_def
        split: option.splits)
next
  case CONN_TYPE_DIR_LISTENER
  with assms show ?thesis
    by (simp add: assert_connection_ok_def tor_assert_ok Let_def CONN_IS_EDGE_def
        split: option.splits)
next
  case CONN_TYPE_CONTROL_LISTENER
  with assms show ?thesis
    by (simp add: assert_connection_ok_def tor_assert_ok Let_def CONN_IS_EDGE_def
        split: option.splits)
qed

text \<open>
  C8. On an unmarked connection that passes \<^verbatim>\<open>assert_connection_ok\<close> the first call
  records the mark (line and file) and queues the connection once. A second call, from
  any line and file, finds the connection still passing the check and returns the state
  of the first call with one more warning in the bug log and nothing else changed: the
  mark, the file and the single entry in the list of connections to close remain.
\<close>

theorem mark_for_close_idempotent:
  assumes ok: "assert_connection_ok io (conns s) c = Inr ()"
    and line: "0 < line" "line < 2 ^ 16" "0 < line'" "line' < 2 ^ 16"
    and unmarked: "marked_for_close (conns s c) = 0"
  shows "\<exists>s1 s2.
      connection_mark_for_close io now c line (Some file) s = Inr s1
    \<and> marked_for_close (conns s1 c) = nat line \<and> marked_for_close (conns s1 c) \<noteq> 0
    \<and> marked_for_close_file (conns s1 c) = Some file
    \<and> closeable_connection_lst s1 = closeable_connection_lst s @ [c]
    \<and> bug_log s1 = bug_log s
    \<and> connection_mark_for_close io now' c line' (Some file') s1 = Inr s2
    \<and> s2 = s1\<lparr>bug_log := bug_log s1 @ [''Duplicate call to connection_mark_for_close'']\<rparr>
    \<and> count_list (closeable_connection_lst s2) c = count_list (closeable_connection_lst s) c + 1"
proof -
  define s1 where "s1 = add_connection_to_closeable_list c
      (conn_update c (\<lambda>k. k\<lparr>marked_for_close_file := Some file\<rparr>)
        (conn_update c (\<lambda>k. k\<lparr>marked_for_close := nat (line mod 2 ^ 16)\<rparr>) s))"
  define s1' where "s1' = conn_update c (\<lambda>k. k\<lparr>timestamp_lastwritten := now\<rparr>) s1"
  have m: "line mod 65536 = line" using line by simp
  have first: "connection_mark_for_close io now c line (Some file) s = Inr s1'"
    using ok line unmarked
    by (simp add: connection_mark_for_close_def Let_def s1_def s1'_def)
  have heap: "conns s1' = (conns s)(c := (conns s c)\<lparr>marked_for_close := nat line,
      marked_for_close_file := Some file, timestamp_lastwritten := now\<rparr>)"
    by (simp add: s1'_def s1_def conn_update_def add_connection_to_closeable_list_def m)
  have obj: "conns s1' c = (conns s c)\<lparr>marked_for_close := nat line,
      marked_for_close_file := Some file, timestamp_lastwritten := now\<rparr>"
    by (simp add: heap)
  have "nat line \<noteq> 0" using line by simp
  with ok have ok1: "assert_connection_ok io (conns s1') c = Inr ()"
    unfolding heap by (rule assert_connection_ok_marked)
  have marked: "marked_for_close (conns s1' c) \<noteq> 0"
    using line by (simp add: obj)
  have lst: "closeable_connection_lst s1' = closeable_connection_lst s @ [c]"
    by (simp add: s1'_def s1_def conn_update_def add_connection_to_closeable_list_def)
  have log: "bug_log s1' = bug_log s"
    by (simp add: s1'_def s1_def conn_update_def add_connection_to_closeable_list_def)
  have second: "connection_mark_for_close io now' c line' (Some file') s1' =
      Inr (s1'\<lparr>bug_log := bug_log s1' @ [''Duplicate call to connection_mark_for_close'']\<rparr>)"
    using ok1 line marked by (simp add: connection_mark_for_close_def)
  show ?thesis
    using first second obj marked lst log by simp
qed

lemma conn_new_ok: "assert_connection_ok io0 (conns state8) 5 = Inr ()"
  by (simp add: assert_connection_ok_def tor_assert_ok Let_def state8_def state0_def
      conn_new_def conn0_def SOCKET_OK_def CONN_IS_EDGE_def OR_CONNECTION_MAGIC_def
      OR_CONN_STATE_CONNECTING_def OR_CONN_STATE_PROXY_HANDSHAKING_def OR_CONN_STATE_MIN_def
      OR_CONN_STATE_MAX_def)

theorem mark_for_close_idempotent_witness:
  "assert_connection_ok io0 (conns state8) 5 = Inr ()
   \<and> (\<exists>s1 s2.
      connection_mark_for_close io0 1000 5 682 (Some ''connection.c'') state8 = Inr s1
    \<and> marked_for_close (conns s1 5) = 682
    \<and> closeable_connection_lst s1 = [5]
    \<and> connection_mark_for_close io0 1001 5 2640 (Some ''main.c'') s1 = Inr s2
    \<and> closeable_connection_lst s2 = [5]
    \<and> length (bug_log s2) = 1)"
proof -
  have u: "marked_for_close (conns state8 5) = 0"
    by (simp add: state8_def state0_def conn_new_def conn0_def)
  have l: "(0::int) < 682" "(682::int) < 2 ^ 16" "(0::int) < 2640" "(2640::int) < 2 ^ 16"
    by simp_all
  from mark_for_close_idempotent [of io0 state8 5 682 2640 1000 "''connection.c''"
      1001 "''main.c''", OF conn_new_ok l u]
  obtain s1 s2 where
    a: "connection_mark_for_close io0 1000 5 682 (Some ''connection.c'') state8 = Inr s1"
    and b: "marked_for_close (conns s1 5) = nat 682"
    and c: "closeable_connection_lst s1 = closeable_connection_lst state8 @ [5]"
    and d: "bug_log s1 = bug_log state8"
    and e: "connection_mark_for_close io0 1001 5 2640 (Some ''main.c'') s1 = Inr s2"
    and f: "s2 = s1\<lparr>bug_log := bug_log s1 @ [''Duplicate call to connection_mark_for_close'']\<rparr>"
    by blast
  have b': "marked_for_close (conns s1 5) = 682" using b by simp
  have c': "closeable_connection_lst s1 = [5]" using c by (simp add: state8_def state0_def)
  have g: "closeable_connection_lst s2 = [5]" using c' by (simp add: f)
  have h: "length (bug_log s2) = 1" using d by (simp add: f state8_def state0_def)
  from conn_new_ok a b' c' e g h show ?thesis by blast
qed

subsection \<open>Sizing the per-connection buckets\<close>

lemma token_bucket_helper_unfold:
  "connection_or_update_token_buckets_helper dir options reset conn =
     (let rate = (if connection_or_digest_is_known_relay dir (identity_digest conn)
                  then int_of_uint64 (BandwidthRate options)
                  else if PerConnBWRate options \<noteq> 0 then int_of_uint64 (PerConnBWRate options)
                  else networkstatus_get_param dir ''perconnbwrate''
                         (int_of_uint64 (BandwidthRate options)) 1 INT32_MAX);
          burst = (if connection_or_digest_is_known_relay dir (identity_digest conn)
                   then int_of_uint64 (BandwidthBurst options)
                   else if PerConnBWBurst options \<noteq> 0 then int_of_uint64 (PerConnBWBurst options)
                   else networkstatus_get_param dir ''perconnbwburst''
                          (int_of_uint64 (BandwidthBurst options)) 1 INT32_MAX)
      in conn\<lparr>bandwidthrate := rate, bandwidthburst := burst,
               read_bucket := (if reset then burst else min (read_bucket conn) burst),
               write_bucket := (if reset then burst else min (write_bucket conn) burst)\<rparr>)"
proof (cases "connection_or_digest_is_known_relay dir (identity_digest conn)")
  case True
  then show ?thesis
    by (cases reset) (simp_all add: connection_or_update_token_buckets_helper_def Let_def min_def)
next
  case False
  then show ?thesis
    by (cases reset) (simp_all add: connection_or_update_token_buckets_helper_def Let_def min_def)
qed


text \<open>
  C7, as the code has it. For a peer that is not a known relay the claim gives the
  minimum of the configured limit and the consensus parameter; the code takes the
  configured limit whenever it is not zero and the consensus parameter otherwise. With
  a configured rate of 100 and a consensus parameter of 50 the rate is 100.
\<close>

theorem token_bucket_min_counterexample:
  "\<not> connection_or_digest_is_known_relay dir0 (identity_digest conn0)
   \<and> bandwidthrate (connection_or_update_token_buckets_helper dir0 options0 True conn0)
       \<noteq> min (uint (PerConnBWRate options0))
             (networkstatus_get_param dir0 ''perconnbwrate''
                (int_of_uint64 (BandwidthRate options0)) 1 INT32_MAX)"
  by (simp add: connection_or_update_token_buckets_helper_def
      connection_or_digest_is_known_relay_def dir0_def options0_def conn0_def
      int_of_uint64_def int_wrap_def)


text \<open>
  For a known relay the rate and burst are the global \<^verbatim>\<open>BandwidthRate\<close> and
  \<^verbatim>\<open>BandwidthBurst\<close> (cast to \<^verbatim>\<open>int\<close>); otherwise each is the configured
  per-connection value if that is not zero, else the consensus parameter. With
  \<open>reset\<close> both buckets are filled to the burst, without it they are clipped to it.
\<close>

theorem token_bucket_sizing:
  fixes dir options reset conn
  defines "conn' \<equiv> connection_or_update_token_buckets_helper dir options reset conn"
  shows "(connection_or_digest_is_known_relay dir (identity_digest conn) \<longrightarrow>
            bandwidthrate conn' = int_of_uint64 (BandwidthRate options)
          \<and> bandwidthburst conn' = int_of_uint64 (BandwidthBurst options))
       \<and> (\<not> connection_or_digest_is_known_relay dir (identity_digest conn) \<longrightarrow>
            bandwidthrate conn' =
              (if PerConnBWRate options \<noteq> 0 then int_of_uint64 (PerConnBWRate options)
               else networkstatus_get_param dir ''perconnbwrate''
                      (int_of_uint64 (BandwidthRate options)) 1 INT32_MAX)
          \<and> bandwidthburst conn' =
              (if PerConnBWBurst options \<noteq> 0 then int_of_uint64 (PerConnBWBurst options)
               else networkstatus_get_param dir ''perconnbwburst''
                      (int_of_uint64 (BandwidthBurst options)) 1 INT32_MAX))
       \<and> (reset \<longrightarrow> read_bucket conn' = bandwidthburst conn'
                    \<and> write_bucket conn' = bandwidthburst conn')
       \<and> (\<not> reset \<longrightarrow> read_bucket conn' = min (read_bucket conn) (bandwidthburst conn')
                      \<and> write_bucket conn' = min (write_bucket conn) (bandwidthburst conn'))"
  unfolding conn'_def token_bucket_helper_unfold
  by (simp add: Let_def)


theorem token_bucket_sizing_witness:
  "connection_or_digest_is_known_relay dir0 7
   \<and> bandwidthrate (connection_or_update_token_buckets_helper dir0 options0 True
        (conn0\<lparr>identity_digest := 7\<rparr>)) = 5000
   \<and> \<not> connection_or_digest_is_known_relay dir0 0
   \<and> bandwidthrate (connection_or_update_token_buckets_helper dir0 options0 True conn0) = 100
   \<and> read_bucket (connection_or_update_token_buckets_helper dir0 options0 True conn0) = 200
   \<and> read_bucket (connection_or_update_token_buckets_helper dir0 options0 False conn0) = 0"
proof -
  have k: "connection_or_digest_is_known_relay dir0 (identity_digest (conn0\<lparr>identity_digest := 7\<rparr>))"
    by (simp add: connection_or_digest_is_known_relay_def dir0_def)
  have n: "\<not> connection_or_digest_is_known_relay dir0 (identity_digest conn0)"
    by (simp add: connection_or_digest_is_known_relay_def dir0_def conn0_def)
  have z: "identity_digest conn0 = 0" "read_bucket conn0 = 0"
    by (simp_all add: conn0_def)
  have o: "int_of_uint64 (BandwidthRate options0) = 5000"
    "PerConnBWRate options0 \<noteq> 0" "int_of_uint64 (PerConnBWRate options0) = 100"
    "PerConnBWBurst options0 \<noteq> 0" "int_of_uint64 (PerConnBWBurst options0) = 200"
    by (simp_all add: options0_def int_of_uint64_def int_wrap_def)
  from token_bucket_sizing [of dir0 "conn0\<lparr>identity_digest := 7\<rparr>" options0 True]
    token_bucket_sizing [of dir0 conn0 options0 True]
    token_bucket_sizing [of dir0 conn0 options0 False] k n z o
  show ?thesis by simp
qed

subsection \<open>Empty buckets pause, the refill resumes\<close>

lemma conns_conn_update: "conns (conn_update p f s) q = (if q = p then f (conns s p) else conns s q)"
  by (simp add: conn_update_def)

lemma refill_conn_globals:
  "connection_bucket_refill_conn ms now (s\<lparr>conns := g\<rparr>) = connection_bucket_refill_conn ms now s"
  by (rule ext)
    (simp add: connection_bucket_refill_conn_def refill_conn_wake_read_def
      refill_conn_wake_write_def)

lemma refill_loop_shape:
  "\<exists>g. fold (\<lambda>p s. conn_update p (connection_bucket_refill_conn ms now s) s) xs s
         = s\<lparr>conns := g\<rparr>
     \<and> (\<forall>q. q \<notin> set xs \<longrightarrow> g q = conns s q)
     \<and> (distinct xs \<longrightarrow> (\<forall>q \<in> set xs. g q = connection_bucket_refill_conn ms now s (conns s q)))"
proof (induction xs arbitrary: s)
  case Nil
  show ?case by (intro exI [of _ "conns s"]) simp
next
  case (Cons x xs)
  let ?s1 = "conn_update x (connection_bucket_refill_conn ms now s) s"
  have s1: "?s1 = s\<lparr>conns := (conns s)(x := connection_bucket_refill_conn ms now s (conns s x))\<rparr>"
    by (simp add: conn_update_def)
  from Cons.IH [of ?s1] obtain g where
    g: "fold (\<lambda>p s. conn_update p (connection_bucket_refill_conn ms now s) s) xs ?s1
          = ?s1\<lparr>conns := g\<rparr>"
    and out: "\<forall>q. q \<notin> set xs \<longrightarrow> g q = conns ?s1 q"
    and inn: "distinct xs \<longrightarrow>
        (\<forall>q \<in> set xs. g q = connection_bucket_refill_conn ms now ?s1 (conns ?s1 q))"
    by blast
  have same: "connection_bucket_refill_conn ms now ?s1 = connection_bucket_refill_conn ms now s"
    unfolding s1 by (rule refill_conn_globals)
  show ?case
  proof (intro exI [of _ g] conjI allI impI ballI)
    show "fold (\<lambda>p s. conn_update p (connection_bucket_refill_conn ms now s) s) (x # xs) s
        = s\<lparr>conns := g\<rparr>"
      using g by (simp add: s1)
  next
    fix q assume "q \<notin> set (x # xs)"
    then show "g q = conns s q"
      using out by (simp add: s1)
  next
    fix q assume d: "distinct (x # xs)" and q: "q \<in> set (x # xs)"
    show "g q = connection_bucket_refill_conn ms now s (conns s q)"
    proof (cases "q = x")
      case True
      with d have "q \<notin> set xs" by simp
      with out have "g q = conns ?s1 q" by blast
      with True show ?thesis by (simp add: s1)
    next
      case False
      with q have "q \<in> set xs" by simp
      with inn d have "g q = connection_bucket_refill_conn ms now ?s1 (conns ?s1 q)" by simp
      with False show ?thesis by (simp add: same) (simp add: s1)
    qed
  qed
qed

lemma consider_empty_read_cases:
  "connection_consider_empty_read_buckets now p s =
     (if read_buckets_exhausted now p s
      then conn_update p (\<lambda>c. c\<lparr>read_blocked_on_bw := True, reading := False\<rparr>) s else s)"
  by (simp add: connection_consider_empty_read_buckets_def read_buckets_exhausted_def
      connection_stop_reading_def Let_def)

lemma consider_empty_write_cases:
  "connection_consider_empty_write_buckets now p s =
     (if write_buckets_exhausted now p s
      then conn_update p (\<lambda>c. c\<lparr>write_blocked_on_bw := True, writing := False\<rparr>) s else s)"
  by (simp add: connection_consider_empty_write_buckets_def write_buckets_exhausted_def
      connection_stop_writing_def Let_def)

lemma refill_conn_buckets_keeps:
  "conn_type (refill_conn_buckets ms c) = conn_type c"
  "state (refill_conn_buckets ms c) = state c"
  "purpose (refill_conn_buckets ms c) = purpose c"
  "client_used (refill_conn_buckets ms c) = client_used c"
  "marked_for_close (refill_conn_buckets ms c) = marked_for_close c"
  "read_blocked_on_bw (refill_conn_buckets ms c) = read_blocked_on_bw c"
  "write_blocked_on_bw (refill_conn_buckets ms c) = write_blocked_on_bw c"
  by (simp_all add: refill_conn_buckets_def Let_def)

lemma refill_conn_wake_read_keeps:
  "conn_type (refill_conn_wake_read now s c) = conn_type c"
  "state (refill_conn_wake_read now s c) = state c"
  "purpose (refill_conn_wake_read now s c) = purpose c"
  "client_used (refill_conn_wake_read now s c) = client_used c"
  "marked_for_close (refill_conn_wake_read now s c) = marked_for_close c"
  "read_bucket (refill_conn_wake_read now s c) = read_bucket c"
  "write_bucket (refill_conn_wake_read now s c) = write_bucket c"
  "write_blocked_on_bw (refill_conn_wake_read now s c) = write_blocked_on_bw c"
  by (simp_all add: refill_conn_wake_read_def connection_start_reading_def)

lemma refill_conn_wake_write_keeps:
  "conn_type (refill_conn_wake_write now s c) = conn_type c"
  "state (refill_conn_wake_write now s c) = state c"
  "purpose (refill_conn_wake_write now s c) = purpose c"
  "client_used (refill_conn_wake_write now s c) = client_used c"
  "marked_for_close (refill_conn_wake_write now s c) = marked_for_close c"
  "read_bucket (refill_conn_wake_write now s c) = read_bucket c"
  "write_bucket (refill_conn_wake_write now s c) = write_bucket c"
  "read_blocked_on_bw (refill_conn_wake_write now s c) = read_blocked_on_bw c"
  "reading (refill_conn_wake_write now s c) = reading c"
  by (simp_all add: refill_conn_wake_write_def connection_start_writing_def)

lemma relayed_cong:
  "conn_type c' = conn_type c \<Longrightarrow> client_used c' = client_used c \<Longrightarrow> purpose c' = purpose c
   \<Longrightarrow> connection_counts_as_relayed_traffic c' now = connection_counts_as_relayed_traffic c now"
  by (simp add: connection_counts_as_relayed_traffic_def DIR_CONN_IS_SERVER_def)

lemma refill_conn_marked:
  "marked_for_close (connection_bucket_refill_conn ms now s c) = marked_for_close c"
  by (simp add: connection_bucket_refill_conn_def refill_conn_buckets_keeps
      refill_conn_wake_read_keeps refill_conn_wake_write_keeps)

lemma refill_conn_wakes_reader:
  assumes "read_blocked_on_bw c" and "global_read_bucket s > 0"
    and "connection_counts_as_relayed_traffic c now \<longrightarrow> global_relayed_read_bucket s > 0"
    and "connection_speaks_cells c \<and> state c = OR_CONN_STATE_OPEN
         \<longrightarrow> read_bucket (connection_bucket_refill_conn ms now s c) > 0"
  shows "\<not> read_blocked_on_bw (connection_bucket_refill_conn ms now s c)
       \<and> reading (connection_bucket_refill_conn ms now s c)"
proof -
  let ?c1 = "refill_conn_buckets ms c"
  have rb: "read_bucket (connection_bucket_refill_conn ms now s c) = read_bucket ?c1"
    by (simp add: connection_bucket_refill_conn_def refill_conn_wake_read_keeps
        refill_conn_wake_write_keeps)
  have rel: "connection_counts_as_relayed_traffic ?c1 now = connection_counts_as_relayed_traffic c now"
    by (rule relayed_cong) (simp_all add: refill_conn_buckets_keeps)
  have sp: "connection_speaks_cells ?c1 = connection_speaks_cells c"
    by (simp add: connection_speaks_cells_def refill_conn_buckets_keeps)
  have "refill_conn_wake_read now s ?c1 = connection_start_reading (?c1\<lparr>read_blocked_on_bw := False\<rparr>)"
    using assms unfolding rb
    by (simp add: refill_conn_wake_read_def rel sp refill_conn_buckets_keeps)
  then show ?thesis
    by (simp add: connection_bucket_refill_conn_def refill_conn_wake_write_keeps
        connection_start_reading_def)
qed

lemma refill_conn_wakes_writer:
  assumes "write_blocked_on_bw c" and "global_write_bucket s > 0"
    and "connection_counts_as_relayed_traffic c now \<longrightarrow> global_relayed_write_bucket s > 0"
    and "connection_speaks_cells c \<and> state c = OR_CONN_STATE_OPEN
         \<longrightarrow> write_bucket (connection_bucket_refill_conn ms now s c) > 0"
  shows "\<not> write_blocked_on_bw (connection_bucket_refill_conn ms now s c)
       \<and> writing (connection_bucket_refill_conn ms now s c)"
proof -
  let ?c2 = "refill_conn_wake_read now s (refill_conn_buckets ms c)"
  have wb: "write_bucket (connection_bucket_refill_conn ms now s c) = write_bucket ?c2"
    by (simp add: connection_bucket_refill_conn_def refill_conn_wake_write_keeps)
  have rel: "connection_counts_as_relayed_traffic ?c2 now = connection_counts_as_relayed_traffic c now"
    by (rule relayed_cong) (simp_all add: refill_conn_buckets_keeps refill_conn_wake_read_keeps)
  have sp: "connection_speaks_cells ?c2 = connection_speaks_cells c"
    by (simp add: connection_speaks_cells_def refill_conn_buckets_keeps refill_conn_wake_read_keeps)
  have "refill_conn_wake_write now s ?c2 = connection_start_writing (?c2\<lparr>write_blocked_on_bw := False\<rparr>)"
    using assms unfolding wb
    by (simp add: refill_conn_wake_write_def rel sp refill_conn_buckets_keeps
        refill_conn_wake_read_keeps)
  then show ?thesis
    by (simp add: connection_bucket_refill_conn_def connection_start_writing_def)
qed

lemma refill_conn_keeps:
  "conn_type (connection_bucket_refill_conn ms now s c) = conn_type c"
  "state (connection_bucket_refill_conn ms now s c) = state c"
  "purpose (connection_bucket_refill_conn ms now s c) = purpose c"
  "client_used (connection_bucket_refill_conn ms now s c) = client_used c"
  by (simp_all add: connection_bucket_refill_conn_def refill_conn_buckets_keeps
      refill_conn_wake_read_keeps refill_conn_wake_write_keeps)

lemma refill_returns:
  assumes "0 \<le> ms"
  shows "\<exists>s4 g. connection_bucket_refill options ms now s = Inr (s4\<lparr>conns := g\<rparr>)
     \<and> conns s4 = conns s \<and> closeable_connection_lst s4 = closeable_connection_lst s
     \<and> connection_array s4 = connection_array s
     \<and> global_read_bucket s4 = connection_bucket_refill_helper (global_read_bucket s)
           (int_of_uint64 (BandwidthRate options)) (int_of_uint64 (BandwidthBurst options)) ms
     \<and> global_write_bucket s4 = connection_bucket_refill_helper (global_write_bucket s)
           (int_of_uint64 (BandwidthRate options)) (int_of_uint64 (BandwidthBurst options)) ms
     \<and> global_relayed_read_bucket s4 = connection_bucket_refill_helper
           (global_relayed_read_bucket s)
           (int_of_uint64 (if RelayBandwidthRate options \<noteq> 0 then RelayBandwidthRate options
                           else BandwidthRate options))
           (int_of_uint64 (if RelayBandwidthRate options \<noteq> 0 then RelayBandwidthBurst options
                           else BandwidthBurst options)) ms
     \<and> global_relayed_write_bucket s4 = connection_bucket_refill_helper
           (global_relayed_write_bucket s)
           (int_of_uint64 (if RelayBandwidthRate options \<noteq> 0 then RelayBandwidthRate options
                           else BandwidthRate options))
           (int_of_uint64 (if RelayBandwidthRate options \<noteq> 0 then RelayBandwidthBurst options
                           else BandwidthBurst options)) ms
     \<and> (\<forall>q. q \<notin> set (connection_array s) \<longrightarrow> g q = conns s q)
     \<and> (distinct (connection_array s) \<longrightarrow>
          (\<forall>q \<in> set (connection_array s). g q = connection_bucket_refill_conn ms now s4 (conns s q)))"
proof -
  obtain s4 where r: "connection_bucket_refill options ms now s =
      Inr (fold (\<lambda>conn s. conn_update conn (connection_bucket_refill_conn ms now s) s)
             (connection_array s4) s4)"
    and k: "conns s4 = conns s" "closeable_connection_lst s4 = closeable_connection_lst s"
      "connection_array s4 = connection_array s"
    and b: "global_read_bucket s4 = connection_bucket_refill_helper (global_read_bucket s)
           (int_of_uint64 (BandwidthRate options)) (int_of_uint64 (BandwidthBurst options)) ms"
      "global_write_bucket s4 = connection_bucket_refill_helper (global_write_bucket s)
           (int_of_uint64 (BandwidthRate options)) (int_of_uint64 (BandwidthBurst options)) ms"
      "global_relayed_read_bucket s4 = connection_bucket_refill_helper
           (global_relayed_read_bucket s)
           (int_of_uint64 (if RelayBandwidthRate options \<noteq> 0 then RelayBandwidthRate options
                           else BandwidthRate options))
           (int_of_uint64 (if RelayBandwidthRate options \<noteq> 0 then RelayBandwidthBurst options
                           else BandwidthBurst options)) ms"
      "global_relayed_write_bucket s4 = connection_bucket_refill_helper
           (global_relayed_write_bucket s)
           (int_of_uint64 (if RelayBandwidthRate options \<noteq> 0 then RelayBandwidthRate options
                           else BandwidthRate options))
           (int_of_uint64 (if RelayBandwidthRate options \<noteq> 0 then RelayBandwidthBurst options
                           else BandwidthBurst options)) ms"
    using assms by (simp add: connection_bucket_refill_def Let_def split_def)
  from refill_loop_shape [of ms now "connection_array s4" s4] obtain g where
    "fold (\<lambda>p s. conn_update p (connection_bucket_refill_conn ms now s) s)
        (connection_array s4) s4 = s4\<lparr>conns := g\<rparr>"
    "\<forall>q. q \<notin> set (connection_array s4) \<longrightarrow> g q = conns s4 q"
    "distinct (connection_array s4) \<longrightarrow>
       (\<forall>q \<in> set (connection_array s4). g q = connection_bucket_refill_conn ms now s4 (conns s4 q))"
    by blast
  with r k b show ?thesis
    by (intro exI [of _ s4] exI [of _ g]) simp
qed


text \<open>
  C9. Considering the buckets of a connection never marks any connection for close and
  never queues one for closing; when a bucket that applies to the connection is empty,
  the connection is blocked on bandwidth and its read (write) interest is stopped. A
  refill does not mark either, and a connection of the array that was blocked and for
  which, after the refill, no applicable bucket is empty, is unblocked and reads
  (writes) again.
\<close>

theorem bucket_exhaustion_pauses_never_closes:
  "(\<forall>q. marked_for_close (conns (connection_consider_empty_read_buckets now p s) q)
        = marked_for_close (conns s q))
   \<and> closeable_connection_lst (connection_consider_empty_read_buckets now p s)
        = closeable_connection_lst s
   \<and> (read_buckets_exhausted now p s \<longrightarrow>
         read_blocked_on_bw (conns (connection_consider_empty_read_buckets now p s) p)
       \<and> \<not> reading (conns (connection_consider_empty_read_buckets now p s) p))
   \<and> (\<forall>q. marked_for_close (conns (connection_consider_empty_write_buckets now p s) q)
        = marked_for_close (conns s q))
   \<and> closeable_connection_lst (connection_consider_empty_write_buckets now p s)
        = closeable_connection_lst s
   \<and> (write_buckets_exhausted now p s \<longrightarrow>
         write_blocked_on_bw (conns (connection_consider_empty_write_buckets now p s) p)
       \<and> \<not> writing (conns (connection_consider_empty_write_buckets now p s) p))
   \<and> (0 \<le> ms \<and> distinct (connection_array s) \<and> p \<in> set (connection_array s) \<longrightarrow>
        (\<exists>s'. connection_bucket_refill options ms now s = Inr s'
           \<and> (\<forall>q. marked_for_close (conns s' q) = marked_for_close (conns s q))
           \<and> closeable_connection_lst s' = closeable_connection_lst s
           \<and> (read_blocked_on_bw (conns s p) \<and> \<not> read_buckets_exhausted now p s' \<longrightarrow>
                \<not> read_blocked_on_bw (conns s' p) \<and> reading (conns s' p))
           \<and> (write_blocked_on_bw (conns s p) \<and> \<not> write_buckets_exhausted now p s' \<longrightarrow>
                \<not> write_blocked_on_bw (conns s' p) \<and> writing (conns s' p))))"
proof -
  have r1: "\<forall>q. marked_for_close (conns (connection_consider_empty_read_buckets now p s) q)
        = marked_for_close (conns s q)"
    by (simp add: consider_empty_read_cases conns_conn_update)
  have r2: "closeable_connection_lst (connection_consider_empty_read_buckets now p s)
        = closeable_connection_lst s"
    by (simp add: consider_empty_read_cases conn_update_def)
  have r3: "read_buckets_exhausted now p s \<longrightarrow>
         read_blocked_on_bw (conns (connection_consider_empty_read_buckets now p s) p)
       \<and> \<not> reading (conns (connection_consider_empty_read_buckets now p s) p)"
    by (simp add: consider_empty_read_cases conns_conn_update)
  have w1: "\<forall>q. marked_for_close (conns (connection_consider_empty_write_buckets now p s) q)
        = marked_for_close (conns s q)"
    by (simp add: consider_empty_write_cases conns_conn_update)
  have w2: "closeable_connection_lst (connection_consider_empty_write_buckets now p s)
        = closeable_connection_lst s"
    by (simp add: consider_empty_write_cases conn_update_def)
  have w3: "write_buckets_exhausted now p s \<longrightarrow>
         write_blocked_on_bw (conns (connection_consider_empty_write_buckets now p s) p)
       \<and> \<not> writing (conns (connection_consider_empty_write_buckets now p s) p)"
    by (simp add: consider_empty_write_cases conns_conn_update)
  have f: "\<exists>s'. connection_bucket_refill options ms now s = Inr s'
           \<and> (\<forall>q. marked_for_close (conns s' q) = marked_for_close (conns s q))
           \<and> closeable_connection_lst s' = closeable_connection_lst s
           \<and> (read_blocked_on_bw (conns s p) \<and> \<not> read_buckets_exhausted now p s' \<longrightarrow>
                \<not> read_blocked_on_bw (conns s' p) \<and> reading (conns s' p))
           \<and> (write_blocked_on_bw (conns s p) \<and> \<not> write_buckets_exhausted now p s' \<longrightarrow>
                \<not> write_blocked_on_bw (conns s' p) \<and> writing (conns s' p))"
    if ms: "0 \<le> ms" and d: "distinct (connection_array s)" and p: "p \<in> set (connection_array s)"
  proof -
    from refill_returns [OF ms, of options now s] d obtain s4 g where
      r: "connection_bucket_refill options ms now s = Inr (s4\<lparr>conns := g\<rparr>)"
      and k: "conns s4 = conns s" "closeable_connection_lst s4 = closeable_connection_lst s"
      and out: "\<And>q. q \<notin> set (connection_array s) \<Longrightarrow> g q = conns s q"
      and inn: "\<And>q. q \<in> set (connection_array s) \<Longrightarrow>
                 g q = connection_bucket_refill_conn ms now s4 (conns s q)"
      by blast
    let ?s' = "s4\<lparr>conns := g\<rparr>"
    let ?c = "conns s p"
    have gp: "g p = connection_bucket_refill_conn ms now s4 ?c"
      using inn p by simp
    have m: "marked_for_close (conns ?s' q) = marked_for_close (conns s q)" for q
      by (cases "q \<in> set (connection_array s)") (simp_all add: out inn refill_conn_marked)
    have rel: "connection_counts_as_relayed_traffic (g p) now
             = connection_counts_as_relayed_traffic ?c now"
      unfolding gp by (rule relayed_cong) (simp_all add: refill_conn_keeps)
    have sp: "connection_speaks_cells (g p) = connection_speaks_cells ?c"
      by (simp add: gp connection_speaks_cells_def refill_conn_keeps)
    have st: "state (g p) = state ?c"
      by (simp add: gp refill_conn_keeps)
    have rd: "\<not> read_blocked_on_bw (conns ?s' p) \<and> reading (conns ?s' p)"
      if "read_blocked_on_bw ?c" "\<not> read_buckets_exhausted now p ?s'"
    proof -
      from that(2) have "global_read_bucket s4 > 0"
        "connection_counts_as_relayed_traffic ?c now \<longrightarrow> global_relayed_read_bucket s4 > 0"
        "connection_speaks_cells ?c \<and> state ?c = OR_CONN_STATE_OPEN
           \<longrightarrow> read_bucket (connection_bucket_refill_conn ms now s4 ?c) > 0"
        using rel sp st by (auto simp: read_buckets_exhausted_def gp)
      from refill_conn_wakes_reader [OF that(1) this]
      show ?thesis by (simp add: gp)
    qed
    have wr: "\<not> write_blocked_on_bw (conns ?s' p) \<and> writing (conns ?s' p)"
      if "write_blocked_on_bw ?c" "\<not> write_buckets_exhausted now p ?s'"
    proof -
      from that(2) have "global_write_bucket s4 > 0"
        "connection_counts_as_relayed_traffic ?c now \<longrightarrow> global_relayed_write_bucket s4 > 0"
        "connection_speaks_cells ?c \<and> state ?c = OR_CONN_STATE_OPEN
           \<longrightarrow> write_bucket (connection_bucket_refill_conn ms now s4 ?c) > 0"
        using rel sp st by (auto simp: write_buckets_exhausted_def gp)
      from refill_conn_wakes_writer [OF that(1) this]
      show ?thesis by (simp add: gp)
    qed
    have cl: "closeable_connection_lst ?s' = closeable_connection_lst s"
      using k by simp
    from r m cl rd wr show ?thesis by blast
  qed
  from r1 r2 r3 w1 w2 w3 f show ?thesis by blast
qed

theorem bucket_exhaustion_pauses_never_closes_witness:
  "read_buckets_exhausted 1000 5 state9 \<and> write_buckets_exhausted 1000 5 state9
   \<and> read_blocked_on_bw (conns (connection_consider_empty_read_buckets 1000 5 state9) 5)
   \<and> marked_for_close (conns (connection_consider_empty_read_buckets 1000 5 state9) 5) = 0
   \<and> (\<exists>s'. connection_bucket_refill options0 100 1000
              (connection_consider_empty_write_buckets 1000 5
                (connection_consider_empty_read_buckets 1000 5 state9)) = Inr s'
         \<and> \<not> read_buckets_exhausted 1000 5 s' \<and> \<not> write_buckets_exhausted 1000 5 s'
         \<and> \<not> read_blocked_on_bw (conns s' 5) \<and> reading (conns s' 5)
         \<and> \<not> write_blocked_on_bw (conns s' 5) \<and> writing (conns s' 5)
         \<and> marked_for_close (conns s' 5) = 0)"
proof -
  let ?sr = "connection_consider_empty_read_buckets 1000 5 state9"
  let ?sb = "connection_consider_empty_write_buckets 1000 5 ?sr"
  have c5: "conns state9 5 = conn0\<lparr>state := OR_CONN_STATE_OPEN,
      reading := True, writing := True, bandwidthrate := 100, bandwidthburst := 200\<rparr>"
    and gl: "global_read_bucket state9 = 0" "global_write_bucket state9 = 0"
      "global_relayed_read_bucket state9 = 0" "global_relayed_write_bucket state9 = 0"
    and arr: "connection_array state9 = [5]"
    by (simp_all add: state9_def state0_def)
  have ex: "read_buckets_exhausted 1000 5 state9" "write_buckets_exhausted 1000 5 state9"
    by (simp_all add: read_buckets_exhausted_def write_buckets_exhausted_def gl)
  note A = bucket_exhaustion_pauses_never_closes [of 1000 5 state9 0 options0]
  from A ex have rb: "read_blocked_on_bw (conns ?sr 5)"
    and m: "marked_for_close (conns ?sr 5) = 0"
    by (simp_all add: c5 conn0_def)
  have sr: "?sr = conn_update 5 (\<lambda>c. c\<lparr>read_blocked_on_bw := True, reading := False\<rparr>) state9"
    using ex by (simp add: consider_empty_read_cases)
  have exw: "write_buckets_exhausted 1000 5 ?sr"
    by (simp add: write_buckets_exhausted_def sr conn_update_def gl)
  note B = bucket_exhaustion_pauses_never_closes [of 1000 5 ?sr 0 options0]
  from B exw have wb: "write_blocked_on_bw (conns ?sb 5)" by simp
  have sb: "?sb = conn_update 5 (\<lambda>c. c\<lparr>write_blocked_on_bw := True, writing := False\<rparr>) ?sr"
    using exw by (simp add: consider_empty_write_cases)
  have srf: "conns ?sr 5 = conn0\<lparr>state := OR_CONN_STATE_OPEN,
      reading := False, writing := True, bandwidthrate := 100, bandwidthburst := 200,
      read_blocked_on_bw := True\<rparr>"
    "connection_array ?sr = [5]"
    "global_read_bucket ?sr = 0" "global_write_bucket ?sr = 0"
    "global_relayed_read_bucket ?sr = 0" "global_relayed_write_bucket ?sr = 0"
    by (simp_all only: sr) (simp_all add: conn_update_def c5 arr gl)
  have c5b: "conns ?sb 5 = conn0\<lparr>state := OR_CONN_STATE_OPEN,
      reading := False, writing := False, bandwidthrate := 100, bandwidthburst := 200,
      read_blocked_on_bw := True, write_blocked_on_bw := True\<rparr>"
    and arrb: "connection_array ?sb = [5]"
    and glb: "global_read_bucket ?sb = 0" "global_write_bucket ?sb = 0"
      "global_relayed_read_bucket ?sb = 0" "global_relayed_write_bucket ?sb = 0"
    by (simp_all only: sb) (simp_all add: conn_update_def srf)
  have pre: "(0::int) \<le> 100 \<and> distinct (connection_array ?sb) \<and> 5 \<in> set (connection_array ?sb)"
    by (simp add: arrb)
  note C = bucket_exhaustion_pauses_never_closes [of 1000 5 ?sb 100 options0]
  from C pre obtain s' where
    r: "connection_bucket_refill options0 100 1000 ?sb = Inr s'"
    and mk: "\<forall>q. marked_for_close (conns s' q) = marked_for_close (conns ?sb q)"
    and wr: "read_blocked_on_bw (conns ?sb 5) \<and> \<not> read_buckets_exhausted 1000 5 s' \<longrightarrow>
                \<not> read_blocked_on_bw (conns s' 5) \<and> reading (conns s' 5)"
    and ww: "write_blocked_on_bw (conns ?sb 5) \<and> \<not> write_buckets_exhausted 1000 5 s' \<longrightarrow>
                \<not> write_blocked_on_bw (conns s' 5) \<and> writing (conns s' 5)"
    by blast
  have h: "connection_bucket_refill_helper 0 5000 10000 100 = 500"
    "connection_bucket_refill_helper 0 100 200 100 = 10"
    by (simp_all add: connection_bucket_refill_helper_def c_div_def int_wrap_def int64_wrap_def)
  have o: "int_of_uint64 (BandwidthRate options0) = 5000"
    "int_of_uint64 (BandwidthBurst options0) = 10000" "RelayBandwidthRate options0 = 0"
    by (simp_all add: options0_def int_of_uint64_def int_wrap_def)
  have opn: "state (conns ?sb 5) = OR_CONN_STATE_OPEN" "bandwidthrate (conns ?sb 5) = 100"
    "bandwidthburst (conns ?sb 5) = 200" "read_bucket (conns ?sb 5) = 0"
    "write_bucket (conns ?sb 5) = 0" "conn_type (conns ?sb 5) = CONN_TYPE_OR"
    "read_blocked_on_bw (conns ?sb 5)" "write_blocked_on_bw (conns ?sb 5)"
    "marked_for_close (conns ?sb 5) = 0"
    by (simp_all only: c5b) (simp_all add: conn0_def)
  have bk: "read_bucket (refill_conn_buckets 100 (conns ?sb 5)) = 10"
    "write_bucket (refill_conn_buckets 100 (conns ?sb 5)) = 10"
    by (simp_all add: refill_conn_buckets_def connection_speaks_cells_def
        connection_bucket_should_increase_def opn h Let_def)
  from refill_returns [of 100 options0 1000 ?sb] arrb obtain s4 g where
    r4: "connection_bucket_refill options0 100 1000 ?sb = Inr (s4\<lparr>conns := g\<rparr>)"
    and g4: "global_read_bucket s4 = 500" "global_write_bucket s4 = 500"
      "global_relayed_read_bucket s4 = 500" "global_relayed_write_bucket s4 = 500"
    and g5: "g 5 = connection_bucket_refill_conn 100 1000 s4 (conns ?sb 5)"
    by (auto simp: o glb h)
  from r r4 have s': "s' = s4\<lparr>conns := g\<rparr>" by simp
  have bks: "read_bucket (conns s' 5) = 10" "write_bucket (conns s' 5) = 10"
    by (simp_all add: s' g5 connection_bucket_refill_conn_def refill_conn_wake_read_keeps
        refill_conn_wake_write_keeps bk)
  have ne: "\<not> read_buckets_exhausted 1000 5 s'" "\<not> write_buckets_exhausted 1000 5 s'"
    using bks by (simp_all add: read_buckets_exhausted_def write_buckets_exhausted_def)
      (simp_all add: s' g4)
  from mk opn have m': "marked_for_close (conns s' 5) = 0" by simp
  from wr opn ne have R: "\<not> read_blocked_on_bw (conns s' 5) \<and> reading (conns s' 5)" by blast
  from ww opn ne have W: "\<not> write_blocked_on_bw (conns s' 5) \<and> writing (conns s' 5)" by blast
  from r ne R W m' have "\<exists>s'. connection_bucket_refill options0 100 1000 ?sb = Inr s'
         \<and> \<not> read_buckets_exhausted 1000 5 s' \<and> \<not> write_buckets_exhausted 1000 5 s'
         \<and> \<not> read_blocked_on_bw (conns s' 5) \<and> reading (conns s' 5)
         \<and> \<not> write_blocked_on_bw (conns s' 5) \<and> writing (conns s' 5)
         \<and> marked_for_close (conns s' 5) = 0"
    by blast
  with ex rb m show ?thesis by blast
qed


subsection \<open>The handshake transcript\<close>


























subsection \<open>The identity map\<close>

lemma identity_chain_same_links:
  "(\<forall>q \<in> set xs. next_with_same_id (h' q) = next_with_same_id (h q))
   \<Longrightarrow> identity_chain h' p xs = identity_chain h p xs"
  by (induction xs arbitrary: p) simp_all

lemma identity_chain_head: "identity_chain h (Some p) xs \<Longrightarrow> \<exists>ys. xs = p # ys"
  by (cases xs) simp_all

lemma identity_chain_unlink_removes:
  assumes "identity_chain h (Some t) xs" and "distinct xs" and "t \<noteq> c"
  shows "\<exists>h'. identity_chain_unlink h t c = Some h'
     \<and> identity_chain h' (Some t) (remove1 c xs)
     \<and> (\<forall>q. q \<notin> set xs \<longrightarrow> h' q = h q)
     \<and> (\<forall>q. identity_digest (h' q) = identity_digest (h q))"
  using assms
proof (induction xs arbitrary: t)
  case Nil
  then show ?case by simp
next
  case (Cons x ys)
  from Cons.prems(1) have x: "x = t" and rest: "identity_chain h (next_with_same_id (h t)) ys"
    by simp_all
  show ?case
  proof (cases ys)
    case Nil
    with rest have "next_with_same_id (h t) = None" by simp
    then have "identity_chain_unlink h t c = Some h"
      by (subst identity_chain_unlink.simps) simp
    with Cons.prems Nil x show ?thesis by simp
  next
    case (Cons n zs)
    with rest have nx: "next_with_same_id (h t) = Some n"
      and tail: "identity_chain h (next_with_same_id (h n)) zs"
      by simp_all
    from Cons.prems(2) x Cons have d: "t \<noteq> n" "t \<notin> set zs" "n \<notin> set zs" "distinct zs"
      by auto
    show ?thesis
    proof (cases "n = c")
      case True
      let ?h' = "h(t := (h t)\<lparr>next_with_same_id := next_with_same_id (h c)\<rparr>)"
      have u: "identity_chain_unlink h t c = Some ?h'"
        using nx True by (subst identity_chain_unlink.simps) simp
      have "identity_chain ?h' (next_with_same_id (h c)) zs = identity_chain h (next_with_same_id (h c)) zs"
        using d by (intro identity_chain_same_links) auto
      with tail True have "identity_chain ?h' (Some t) (t # zs)" by simp
      moreover have "remove1 c (x # ys) = t # zs"
        using x Cons True \<open>t \<noteq> c\<close> by simp
      ultimately show ?thesis
        using u x by auto
    next
      case False
      have u: "identity_chain_unlink h t c = identity_chain_unlink h n c"
        using nx False by (subst identity_chain_unlink.simps) simp
      have "identity_chain h (Some n) ys" using Cons tail by simp
      moreover have "distinct ys" using Cons.prems(2) by simp
      ultimately obtain h' where
        r: "identity_chain_unlink h n c = Some h'"
        and ch: "identity_chain h' (Some n) (remove1 c ys)"
        and out: "\<forall>q. q \<notin> set ys \<longrightarrow> h' q = h q"
        and dg: "\<forall>q. identity_digest (h' q) = identity_digest (h q)"
        using Cons.IH [of n] False by blast
      have "t \<notin> set ys" using Cons.prems(2) x by simp
      with out have "h' t = h t" by blast
      with nx ch have "identity_chain h' (Some t) (t # remove1 c ys)" by simp
      moreover have "remove1 c (x # ys) = t # remove1 c ys"
        using x \<open>t \<noteq> c\<close> by simp
      moreover have "\<forall>q. q \<notin> set (x # ys) \<longrightarrow> h' q = h q"
        using out by simp
      ultimately show ?thesis
        using u r dg by simp
    qed
  qed
qed

lemma identity_chain_check_passes:
  assumes "identity_chain h (Some t) xs"
    and "\<forall>q \<in> set xs. identity_digest (h q) = d \<and> q \<noteq> c"
  shows "identity_chain_check h d c t = Some (Inr ())"
  using assms
proof (induction xs arbitrary: t)
  case Nil
  then show ?case by simp
next
  case (Cons x ys)
  from Cons.prems(1) have x: "x = t" and rest: "identity_chain h (next_with_same_id (h t)) ys"
    by simp_all
  from Cons.prems(2) x have ok: "identity_digest (h t) = d" "t \<noteq> c" by simp_all
  show ?case
  proof (cases ys)
    case Nil
    with rest have "next_with_same_id (h t) = None" by simp
    with ok show ?thesis
      by (subst identity_chain_check.simps) simp
  next
    case (Cons n zs)
    with rest have nx: "next_with_same_id (h t) = Some n" by simp
    have "identity_chain h (Some n) ys" using Cons rest by simp
    with Cons.prems(2) have "identity_chain_check h d c n = Some (Inr ())"
      by (intro Cons.IH) simp_all
    with ok nx show ?thesis
      by (subst identity_chain_check.simps) simp
  qed
qed

lemma digestmap_get_iff:
  "distinct (map fst m) \<Longrightarrow> digestmap_get m k = Some p \<longleftrightarrow> (k, p) \<in> set m"
  by (simp add: digestmap_get_def)

lemma digestmap_get_None: "digestmap_get m k = None \<longleftrightarrow> k \<notin> fst ` set m"
  by (simp add: digestmap_get_def map_of_eq_None_iff)

lemma set_digestmap_remove: "set (digestmap_remove m k) = {e \<in> set m. fst e \<noteq> k}"
  by (auto simp: digestmap_remove_def)

lemma distinct_digestmap_remove:
  "distinct (map fst m) \<Longrightarrow> distinct (map fst (digestmap_remove m k))"
  by (simp add: digestmap_remove_def distinct_map_filter)

lemma set_digestmap_set: "set (digestmap_set m k v) = insert (k, v) {e \<in> set m. fst e \<noteq> k}"
  by (simp add: digestmap_set_def set_digestmap_remove)

lemma distinct_digestmap_set:
  "distinct (map fst m) \<Longrightarrow> distinct (map fst (digestmap_set m k v))"
  by (auto simp: digestmap_set_def distinct_digestmap_remove set_digestmap_remove)

lemma identity_entry_ok_transfer:
  assumes "identity_entry_ok h d p"
    and "\<forall>q. identity_digest (h q) = d \<longrightarrow> h' q = h q"
  shows "identity_entry_ok h' d p"
proof -
  from assms(1) obtain xs where d: "d \<noteq> 0"
    and ch: "identity_chain h (Some p) xs" and ds: "distinct xs"
    and dg: "\<forall>q \<in> set xs. identity_digest (h q) = d"
    by (auto simp: identity_entry_ok_def)
  from dg assms(2) have same: "\<forall>q \<in> set xs. h' q = h q" by blast
  then have "identity_chain h' (Some p) xs = identity_chain h (Some p) xs"
    by (intro identity_chain_same_links) simp
  with ch ds dg same d show ?thesis
    by (auto simp: identity_entry_ok_def)
qed

text \<open>Removing a connection keeps the invariant, and leaves its digest without a key.\<close>

lemma remove_from_identity_map_ok:
  assumes inv: "identity_map_ok s"
  shows "\<exists>s'. connection_or_remove_from_identity_map c s = Some s' \<and> identity_map_ok s'
     \<and> (orconn_identity_map s' = None \<longleftrightarrow> orconn_identity_map s = None)
     \<and> (\<forall>m'. orconn_identity_map s' = Some m' \<longrightarrow> identity_digest (conns s' c) \<notin> fst ` set m')"
proof (cases "orconn_identity_map s")
  case None
  then show ?thesis
    using inv by (simp add: connection_or_remove_from_identity_map_def)
next
  case (Some m)
  note map = Some
  define h where "h = conns s"
  define d0 where "d0 = identity_digest (h c)"
  let ?zero = "\<lambda>k. k\<lparr>identity_digest := 0, next_with_same_id := None\<rparr>"
  from inv map have dk: "distinct (map fst m)"
    and en: "\<And>e. e \<in> set m \<Longrightarrow> identity_entry_ok h (fst e) (snd e)"
    by (simp_all add: identity_map_ok_def h_def)
  have nz: "0 \<notin> fst ` set m"
    using en by (auto simp: identity_entry_ok_def)
  have unfold: "connection_or_remove_from_identity_map c s =
     (case digestmap_get m d0 of
        None \<Rightarrow>
          Some (if \<not> tor_digest_is_zero d0
                then s\<lparr>bug_log := bug_log s
                       @ [''Didn't find connection on identity map when trying to remove it.'']\<rparr>
                else s)
      | Some tmp \<Rightarrow>
          map_option (conn_update c ?zero)
            (if c = tmp then
               (case next_with_same_id (h c) of
                  Some n \<Rightarrow> Some (s\<lparr>orconn_identity_map := Some (digestmap_set m d0 n)\<rparr>)
                | None \<Rightarrow> Some (s\<lparr>orconn_identity_map := Some (digestmap_remove m d0)\<rparr>))
             else map_option (\<lambda>h. s\<lparr>conns := h\<rparr>) (identity_chain_unlink h tmp c)))"
    by (simp add: connection_or_remove_from_identity_map_def map h_def d0_def Let_def
      split: option.split)
  have fin: ?thesis
    if r: "connection_or_remove_from_identity_map c s = Some s'"
      and k: "conns s' = h'" "orconn_identity_map s' = Some m'"
      and dm: "distinct (map fst m')"
      and all: "\<And>e. e \<in> set m' \<Longrightarrow> identity_entry_ok h' (fst e) (snd e)"
      and nk: "identity_digest (h' c) \<notin> fst ` set m'" for s' h' m'
  proof -
    have "identity_map_ok s'"
      unfolding identity_map_ok_def k using dm all by simp
    with r k nk map show ?thesis
      by (intro exI [of _ s']) simp
  qed
  show ?thesis
  proof (cases "digestmap_get m d0")
    case None
    obtain s' where r: "connection_or_remove_from_identity_map c s = Some s'"
      and k: "conns s' = h" "orconn_identity_map s' = Some m"
      unfolding unfold using None map by (simp add: h_def)
    have "identity_digest (h c) \<notin> fst ` set m"
      using None by (simp add: digestmap_get_None d0_def)
    with r k dk en show ?thesis by (rule fin)
  next
    case (Some t)
    with dk have tm: "(d0, t) \<in> set m" by (simp add: digestmap_get_iff)
    from en [OF tm] obtain xs where d0: "d0 \<noteq> 0"
      and ch: "identity_chain h (Some t) xs" and ds: "distinct xs"
      and dg: "\<And>q. q \<in> set xs \<Longrightarrow> identity_digest (h q) = d0"
      by (auto simp: identity_entry_ok_def)
    from identity_chain_head [OF ch] obtain ys where xs: "xs = t # ys" by blast
    have others: "identity_entry_ok h' (fst e) (snd e)"
      if e: "e \<in> set m" "fst e \<noteq> d0"
        and h': "\<And>q. identity_digest (h q) \<noteq> d0 \<Longrightarrow> h' q = h q" for e h'
    proof (rule identity_entry_ok_transfer [OF en [OF e(1)]], intro allI impI)
      fix q assume "identity_digest (h q) = fst e"
      with e(2) have "identity_digest (h q) \<noteq> d0" by simp
      then show "h' q = h q" by (rule h')
    qed
    show ?thesis
    proof (cases "c = t")
      case True
      define h' where "h' = h(c := ?zero (h c))"
      have hc: "h' q = h q" if "identity_digest (h q) \<noteq> d0" for q
        using that by (cases "q = c") (simp_all add: h'_def d0_def)
      have hz: "identity_digest (h' c) = 0" by (simp add: h'_def)
      from ch xs True have tail: "identity_chain h (next_with_same_id (h c)) ys" by simp
      from ds xs True have cy: "c \<notin> set ys" "distinct ys" by simp_all
      have hy: "h' q = h q" if "q \<in> set ys" for q
        using that cy by (auto simp: h'_def)
      show ?thesis
      proof (cases "next_with_same_id (h c)")
        case None
        define m' where "m' = digestmap_remove m d0"
        define s' where "s' = conn_update c ?zero (s\<lparr>orconn_identity_map := Some m'\<rparr>)"
        have r: "connection_or_remove_from_identity_map c s = Some s'"
          unfolding unfold using Some True None by (simp add: s'_def m'_def)
        have k: "conns s' = h'" "orconn_identity_map s' = Some m'"
          by (simp_all add: conn_update_def s'_def h'_def h_def)
        have dm: "distinct (map fst m')"
          using dk by (simp add: m'_def distinct_digestmap_remove)
        have all: "identity_entry_ok h' (fst e) (snd e)" if "e \<in> set m'" for e
          using that by (intro others hc) (simp_all add: m'_def set_digestmap_remove)
        have nk: "identity_digest (h' c) \<notin> fst ` set m'"
          unfolding hz using nz by (auto simp: m'_def set_digestmap_remove)
        from r k dm all nk show ?thesis by (rule fin)
      next
        case (Some n)
        define m' where "m' = digestmap_set m d0 n"
        define s' where "s' = conn_update c ?zero (s\<lparr>orconn_identity_map := Some m'\<rparr>)"
        have r: "connection_or_remove_from_identity_map c s = Some s'"
          unfolding unfold using \<open>digestmap_get m d0 = Some t\<close> True Some
          by (simp add: s'_def m'_def)
        have k: "conns s' = h'" "orconn_identity_map s' = Some m'"
          by (simp_all add: conn_update_def s'_def h'_def h_def)
        have dm: "distinct (map fst m')"
          using dk by (simp add: m'_def distinct_digestmap_set)
        have "identity_chain h' (Some n) ys = identity_chain h (Some n) ys"
          by (rule identity_chain_same_links) (simp add: hy)
        with tail Some have c1: "identity_chain h' (Some n) ys" by simp
        have c2: "\<forall>q \<in> set ys. identity_digest (h' q) = d0"
          using dg xs by (simp add: hy)
        have new: "identity_entry_ok h' d0 n"
          unfolding identity_entry_ok_def
          using d0 c1 c2 cy(2) by (intro conjI exI [of _ ys])
        have all: "identity_entry_ok h' (fst e) (snd e)" if "e \<in> set m'" for e
        proof (cases "e = (d0, n)")
          case True
          with new show ?thesis by simp
        next
          case False
          with that have "e \<in> set m" "fst e \<noteq> d0"
            by (simp_all add: m'_def set_digestmap_set)
          then show ?thesis by (intro others hc)
        qed
        have nk: "identity_digest (h' c) \<notin> fst ` set m'"
          unfolding hz using nz d0 by (auto simp: m'_def set_digestmap_set)
        from r k dm all nk show ?thesis by (rule fin)
      qed
    next
      case False
      then have "t \<noteq> c" by simp
      from identity_chain_unlink_removes [OF ch ds this] obtain h1 where
        u: "identity_chain_unlink h t c = Some h1"
        and ch1: "identity_chain h1 (Some t) (remove1 c xs)"
        and out: "\<And>q. q \<notin> set xs \<Longrightarrow> h1 q = h q"
        and dg1: "\<And>q. identity_digest (h1 q) = identity_digest (h q)"
        by blast
      define h' where "h' = h1(c := ?zero (h1 c))"
      define s' where "s' = conn_update c ?zero (s\<lparr>conns := h1\<rparr>)"
      have r: "connection_or_remove_from_identity_map c s = Some s'"
        unfolding unfold using Some False u by (simp add: s'_def)
      have k: "conns s' = h'" "orconn_identity_map s' = Some m"
        using map by (simp_all add: conn_update_def s'_def h'_def)
      have hz: "identity_digest (h' c) = 0" by (simp add: h'_def)
      have hc: "h' q = h q" if "identity_digest (h q) \<noteq> d0" for q
      proof -
        from that have "q \<noteq> c" by (auto simp: d0_def)
        moreover from that dg have "q \<notin> set xs" by blast
        ultimately show ?thesis by (simp add: h'_def out)
      qed
      have cn: "c \<notin> set (remove1 c xs)" using ds by simp
      from ds have "set (remove1 c xs) = set xs - {c}" by (rule set_remove1_eq)
      then have sub: "q \<in> set xs" "q \<noteq> c" if "q \<in> set (remove1 c xs)" for q
        using that by blast+
      have "identity_chain h' (Some t) (remove1 c xs) = identity_chain h1 (Some t) (remove1 c xs)"
      proof (rule identity_chain_same_links, rule ballI)
        fix q assume "q \<in> set (remove1 c xs)"
        then have "q \<noteq> c" by (rule sub(2))
        then show "next_with_same_id (h' q) = next_with_same_id (h1 q)"
          by (simp add: h'_def)
      qed
      with ch1 have c1: "identity_chain h' (Some t) (remove1 c xs)" by simp
      have c2: "\<forall>q \<in> set (remove1 c xs). identity_digest (h' q) = d0"
      proof
        fix q assume q: "q \<in> set (remove1 c xs)"
        from sub(2) [OF q] have "h' q = h1 q" by (simp add: h'_def)
        moreover from sub(1) [OF q] have "identity_digest (h q) = d0" by (rule dg)
        ultimately show "identity_digest (h' q) = d0" by (simp add: dg1)
      qed
      have c3: "distinct (remove1 c xs)" using ds by simp
      have new: "identity_entry_ok h' d0 t"
        unfolding identity_entry_ok_def
        using d0 c1 c2 c3 by (intro conjI exI [of _ "remove1 c xs"])
      have all: "identity_entry_ok h' (fst e) (snd e)" if "e \<in> set m" for e
      proof (cases "fst e = d0")
        case True
        with that tm dk have "e = (d0, t)"
          by (metis eq_key_imp_eq_value prod.collapse)
        with new show ?thesis by simp
      next
        case False
        with that show ?thesis by (intro others hc)
      qed
      have nk: "identity_digest (h' c) \<notin> fst ` set m"
        unfolding hz using nz .
      from r k dk all nk show ?thesis by (rule fin)
    qed
  qed
qed

text \<open>Setting the identity digest keeps the invariant.\<close>

lemma set_identity_digest_ok:
  assumes inv: "identity_map_ok s"
  shows "\<exists>s'. connection_or_set_identity_digest c d s = Some (Inr s') \<and> identity_map_ok s'
     \<and> identity_digest (conns s' c) = d \<and> orconn_identity_map s' \<noteq> None"
proof -
  define s0 where
    "s0 = (if orconn_identity_map s = None then s\<lparr>orconn_identity_map := Some []\<rparr> else s)"
  define tail where "tail = (\<lambda>s1.
     let s2 = conn_update c (\<lambda>k. k\<lparr>identity_digest := d\<rparr>) s1
     in if tor_digest_is_zero d then Some (Inr s2)
        else
          (case orconn_identity_map s2 of
             None \<Rightarrow> Some (Inl Null_dereference)
           | Some m \<Rightarrow>
               (let tmp = digestmap_get m d;
                    s3 = s2\<lparr>orconn_identity_map := Some (digestmap_set m d c)\<rparr>;
                    s4 = conn_update c (\<lambda>k. k\<lparr>next_with_same_id := tmp\<rparr>) s3
                in map_option (\<lambda>r. case r of Inl a \<Rightarrow> Inl a | Inr _ \<Rightarrow> Inr s4)
                     (case tmp of
                        None \<Rightarrow> Some (Inr ())
                      | Some t \<Rightarrow> identity_chain_check (conns s4) d c t))))"
  have unfold: "connection_or_set_identity_digest c d s =
     (if identity_digest (conns s0 c) = d then Some (Inr s0)
      else (case (if \<not> tor_digest_is_zero (identity_digest (conns s0 c))
                  then connection_or_remove_from_identity_map c s0 else Some s0) of
              None \<Rightarrow> None
            | Some s1 \<Rightarrow> tail s1))"
    unfolding connection_or_set_identity_digest_def tail_def s0_def Let_def by (rule refl)
  have inv0: "identity_map_ok s0"
    using inv by (simp add: s0_def identity_map_ok_def)
  obtain m0 where m0: "orconn_identity_map s0 = Some m0"
    by (cases "orconn_identity_map s") (simp_all add: s0_def)
  have tl: "\<exists>s'. tail s1 = Some (Inr s') \<and> identity_map_ok s'
       \<and> identity_digest (conns s' c) = d \<and> orconn_identity_map s' \<noteq> None"
    if i1: "identity_map_ok s1" and m1: "orconn_identity_map s1 = Some m1"
      and nk: "identity_digest (conns s1 c) \<notin> fst ` set m1" for s1 m1
  proof -
    define h1 where "h1 = conns s1"
    from i1 m1 have dk: "distinct (map fst m1)"
      and en: "\<And>e. e \<in> set m1 \<Longrightarrow> identity_entry_ok h1 (fst e) (snd e)"
      by (simp_all add: identity_map_ok_def h1_def)
    have others: "identity_entry_ok h' (fst e) (snd e)"
      if e: "e \<in> set m1" and h': "\<And>q. q \<noteq> c \<Longrightarrow> h' q = h1 q" for e h'
    proof (rule identity_entry_ok_transfer [OF en [OF e]], intro allI impI)
      fix q assume q: "identity_digest (h1 q) = fst e"
      have "q \<noteq> c"
      proof
        assume "q = c"
        with q e have "identity_digest (h1 c) \<in> fst ` set m1" by simp
        with nk show False by (simp add: h1_def)
      qed
      then show "h' q = h1 q" by (rule h')
    qed
    show ?thesis
    proof (cases "d = 0")
      case True
      define s2 where "s2 = conn_update c (\<lambda>k. k\<lparr>identity_digest := d\<rparr>) s1"
      have r: "tail s1 = Some (Inr s2)"
        using True by (simp add: tail_def Let_def tor_digest_is_zero_def s2_def)
      have k: "conns s2 = h1(c := (h1 c)\<lparr>identity_digest := d\<rparr>)" "orconn_identity_map s2 = Some m1"
        using m1 by (simp_all add: s2_def conn_update_def h1_def)
      have "identity_entry_ok (conns s2) (fst e) (snd e)" if "e \<in> set m1" for e
        using that by (rule others) (simp add: k)
      with dk k have "identity_map_ok s2" by (simp add: identity_map_ok_def)
      moreover have "identity_digest (conns s2 c) = d" by (simp add: k)
      ultimately show ?thesis using r k by blast
    next
      case False
      define tmp where "tmp = digestmap_get m1 d"
      define h4 where "h4 = h1(c := (h1 c)\<lparr>identity_digest := d, next_with_same_id := tmp\<rparr>)"
      define m4 where "m4 = digestmap_set m1 d c"
      define s4 where "s4 = conn_update c (\<lambda>k. k\<lparr>next_with_same_id := tmp\<rparr>)
         ((conn_update c (\<lambda>k. k\<lparr>identity_digest := d\<rparr>) s1)\<lparr>orconn_identity_map := Some m4\<rparr>)"
      have k: "conns s4 = h4" "orconn_identity_map s4 = Some m4"
        by (simp_all add: s4_def conn_update_def h4_def h1_def)
      have r: "tail s1 = map_option (\<lambda>r. case r of Inl a \<Rightarrow> Inl a | Inr _ \<Rightarrow> Inr s4)
                 (case tmp of None \<Rightarrow> Some (Inr ())
                  | Some t \<Rightarrow> identity_chain_check h4 d c t)"
        unfolding s4_def m4_def tmp_def h4_def h1_def tail_def Let_def conn_update_def
        using False m1
        by (cases "digestmap_get m1 d")
          (simp_all add: tor_digest_is_zero_def cong: sum.case_cong)
      obtain xs where ch: "identity_chain h1 tmp xs" and ds: "distinct xs"
        and dg: "\<And>q. q \<in> set xs \<Longrightarrow> identity_digest (h1 q) = d"
      proof (cases tmp)
        case None
        show ?thesis by (rule that [of "[]"]) (simp_all add: None)
      next
        case (Some t)
        with dk have "(d, t) \<in> set m1" by (simp add: tmp_def digestmap_get_iff)
        from en [OF this] Some show ?thesis
          by (auto simp: identity_entry_ok_def intro: that)
      qed
      have cx: "c \<notin> set xs"
      proof
        assume "c \<in> set xs"
        then have "identity_digest (h1 c) = d" by (rule dg)
        moreover have "d \<in> fst ` set m1"
        proof (cases tmp)
          case None
          with ch \<open>c \<in> set xs\<close> show ?thesis by (cases xs) simp_all
        next
          case (Some t)
          then show ?thesis
            by (metis digestmap_get_None option.distinct(1) tmp_def)
        qed
        ultimately show False using nk by (simp add: h1_def)
      qed
      have same: "h4 q = h1 q" if "q \<in> set xs" for q
        using that cx by (auto simp: h4_def)
      have "identity_chain h4 tmp xs = identity_chain h1 tmp xs"
        by (rule identity_chain_same_links) (simp add: same)
      with ch have ch4: "identity_chain h4 tmp xs" by simp
      have dg4: "\<forall>q \<in> set xs. identity_digest (h4 q) = d \<and> q \<noteq> c"
        using dg cx by (auto simp: same)
      have chk: "(case tmp of None \<Rightarrow> Some (Inr ())
                  | Some t \<Rightarrow> identity_chain_check h4 d c t) = Some (Inr ())"
      proof (cases tmp)
        case None
        then show ?thesis by simp
      next
        case (Some t)
        with ch4 have "identity_chain h4 (Some t) xs" by simp
        from identity_chain_check_passes [OF this dg4] Some show ?thesis by simp
      qed
      have r': "tail s1 = Some (Inr s4)"
        unfolding r chk by simp
      have c1: "identity_chain h4 (Some c) (c # xs)"
        using ch4 by (simp add: h4_def)
      have c2: "distinct (c # xs)" using ds cx by simp
      have "identity_digest (h4 c) = d" by (simp add: h4_def)
      with dg4 have c3: "\<forall>q \<in> set (c # xs). identity_digest (h4 q) = d"
        by simp
      have new: "identity_entry_ok h4 d c"
        unfolding identity_entry_ok_def
        using False c1 c2 c3 by (intro conjI exI [of _ "c # xs"])
      have all: "identity_entry_ok h4 (fst e) (snd e)" if "e \<in> set m4" for e
      proof (cases "e = (d, c)")
        case True
        with new show ?thesis by simp
      next
        case False
        with that have "e \<in> set m1" by (simp add: m4_def set_digestmap_set)
        then show ?thesis by (rule others) (simp add: h4_def)
      qed
      have "distinct (map fst m4)"
        using dk by (simp add: m4_def distinct_digestmap_set)
      with all k have "identity_map_ok s4" by (simp add: identity_map_ok_def)
      moreover have "identity_digest (conns s4 c) = d" by (simp add: k h4_def)
      ultimately show ?thesis using r' k by blast
    qed
  qed
  show ?thesis
  proof (cases "identity_digest (conns s0 c) = d")
    case True
    with unfold have "connection_or_set_identity_digest c d s = Some (Inr s0)" by simp
    with inv0 True m0 show ?thesis by simp
  next
    case False
    have "\<exists>s1 m1. (if \<not> tor_digest_is_zero (identity_digest (conns s0 c))
                  then connection_or_remove_from_identity_map c s0 else Some s0) = Some s1
        \<and> identity_map_ok s1 \<and> orconn_identity_map s1 = Some m1
        \<and> identity_digest (conns s1 c) \<notin> fst ` set m1"
    proof (cases "tor_digest_is_zero (identity_digest (conns s0 c))")
      case True
      from inv0 m0 have "0 \<notin> fst ` set m0"
        by (auto simp: identity_map_ok_def identity_entry_ok_def)
      with True inv0 m0 show ?thesis by (simp add: tor_digest_is_zero_def)
    next
      case False
      from remove_from_identity_map_ok [OF inv0, of c] obtain s1 where
        a: "connection_or_remove_from_identity_map c s0 = Some s1" "identity_map_ok s1"
        and b: "orconn_identity_map s1 = None \<longleftrightarrow> orconn_identity_map s0 = None"
        and e: "\<forall>m'. orconn_identity_map s1 = Some m' \<longrightarrow> identity_digest (conns s1 c) \<notin> fst ` set m'"
        by (elim exE conjE) (rule that, assumption+)
      from b m0 obtain m1 where m1: "orconn_identity_map s1 = Some m1" by auto
      from e m1 have "identity_digest (conns s1 c) \<notin> fst ` set m1" by blast
      with a m1 False show ?thesis by simp
    qed
    then obtain s1 m1 where
      a: "(if \<not> tor_digest_is_zero (identity_digest (conns s0 c))
           then connection_or_remove_from_identity_map c s0 else Some s0) = Some s1"
      and b: "identity_map_ok s1" "orconn_identity_map s1 = Some m1"
         "identity_digest (conns s1 c) \<notin> fst ` set m1"
      by blast
    have "connection_or_set_identity_digest c d s = tail s1"
      unfolding unfold a using False by simp
    with tl [OF b] show ?thesis by simp
  qed
qed

text \<open>Clearing the map leaves no map, and no identity on the OR connections of the array.\<close>

lemma clear_fold_keeps:
  assumes f: "\<And>x s. f x s = (if conn_type (conns s x) = CONN_TYPE_OR
        then conn_update x (\<lambda>c. c\<lparr>identity_digest := 0, next_with_same_id := None\<rparr>) s
        else s)"
  shows "conn_type (conns (fold f xs s) q) = conn_type (conns s q)
     \<and> (identity_digest (conns s q) = 0 \<longrightarrow> identity_digest (conns (fold f xs s) q) = 0)"
proof (induction xs arbitrary: s)
  case Nil
  show ?case by simp
next
  case (Cons x xs)
  have "conn_type (conns (f x s) q) = conn_type (conns s q)"
    and "identity_digest (conns s q) = 0 \<longrightarrow> identity_digest (conns (f x s) q) = 0"
    by (simp_all add: f conn_update_def)
  with Cons.IH [of "f x s"] show ?case by simp
qed

lemma clear_fold_zero:
  assumes f: "\<And>x s. f x s = (if conn_type (conns s x) = CONN_TYPE_OR
        then conn_update x (\<lambda>c. c\<lparr>identity_digest := 0, next_with_same_id := None\<rparr>) s
        else s)"
    and q: "q \<in> set xs" "conn_type (conns s q) = CONN_TYPE_OR"
  shows "identity_digest (conns (fold f xs s) q) = 0"
  using q
proof (induction xs arbitrary: s)
  case Nil
  then show ?case by simp
next
  case (Cons x xs)
  show ?case
  proof (cases "q = x")
    case True
    with Cons.prems have "identity_digest (conns (f x s) q) = 0"
      by (simp add: f conn_update_def)
    with clear_fold_keeps [of f xs "f x s" q, OF f] show ?thesis by simp
  next
    case False
    with Cons.prems have "q \<in> set xs" by simp
    moreover have "conn_type (conns (f x s) q) = CONN_TYPE_OR"
      using Cons.prems(2) by (simp add: f conn_update_def)
    ultimately have "identity_digest (conns (fold f xs (f x s)) q) = 0" by (rule Cons.IH)
    then show ?thesis by simp
  qed
qed

lemma clear_identity_map_ok:
  "identity_map_ok (connection_or_clear_identity_map s)
   \<and> orconn_identity_map (connection_or_clear_identity_map s) = None
   \<and> (\<forall>q \<in> set (connection_array s). conn_type (conns s q) = CONN_TYPE_OR
        \<longrightarrow> identity_digest (conns (connection_or_clear_identity_map s) q) = 0)"
proof (intro conjI ballI impI)
  show "identity_map_ok (connection_or_clear_identity_map s)"
    by (simp add: connection_or_clear_identity_map_def identity_map_ok_def)
  show "orconn_identity_map (connection_or_clear_identity_map s) = None"
    by (simp add: connection_or_clear_identity_map_def)
  fix q assume "q \<in> set (connection_array s)" "conn_type (conns s q) = CONN_TYPE_OR"
  then show "identity_digest (conns (connection_or_clear_identity_map s) q) = 0"
    unfolding connection_or_clear_identity_map_def
    by (simp add: clear_fold_zero)
qed

lemma identity_chain_unique:
  "identity_chain h p xs \<Longrightarrow> identity_chain h p ys \<Longrightarrow> xs = ys"
proof (induction xs arbitrary: p ys)
  case Nil
  then show ?case by (cases ys) simp_all
next
  case (Cons x xs)
  then show ?case by (cases ys) auto
qed

lemma count_list_distinct: "distinct xs \<Longrightarrow> q \<in> set xs \<Longrightarrow> count_list xs q = 1"
  by (induction xs) (auto simp: count_notin)

text \<open>
  What the invariant says of a connection \<open>q\<close> found in the chain \<open>xs\<close> under the key
  \<open>k\<close>: it carries \<open>k\<close>, which is not zero, a lookup of its digest gives the head of
  that very chain, and it is there once.
\<close>

lemma identity_map_ok_registry:
  assumes "identity_map_ok s" and "orconn_identity_map s = Some m" and "(k, p) \<in> set m"
    and "identity_chain (conns s) (Some p) xs" and "q \<in> set xs"
  shows "identity_digest (conns s q) = k \<and> k \<noteq> 0
     \<and> digestmap_get m (identity_digest (conns s q)) = Some p \<and> count_list xs q = 1"
proof -
  from assms(1-3) have dk: "distinct (map fst m)" and "identity_entry_ok (conns s) k p"
    by (auto simp: identity_map_ok_def)
  then obtain ys where k: "k \<noteq> 0" and ch: "identity_chain (conns s) (Some p) ys"
    and ds: "distinct ys" and dg: "\<forall>q \<in> set ys. identity_digest (conns s q) = k"
    by (auto simp: identity_entry_ok_def)
  from identity_chain_unique [OF assms(4) ch] have xs: "xs = ys" .
  with dg assms(5) have d: "identity_digest (conns s q) = k" by simp
  moreover from dk assms(3) have "digestmap_get m k = Some p"
    by (simp add: digestmap_get_iff)
  moreover from ds xs assms(5) have "count_list xs q = 1"
    by (simp add: count_list_distinct)
  ultimately show ?thesis using k by simp
qed

text \<open>
  C4. The invariant of the identity map (every connection reachable from the map is once
  in the chain under its own digest, every member of a chain has the digest of the key,
  no key is zero) is kept by the three operations on the map: setting the identity
  digest of a connection returns, without a failed assertion, in a state that satisfies
  it and where the connection has the new digest; removing a connection returns in a
  state that satisfies it; clearing leaves no map at all, and a zero digest on every OR
  connection of the connection array.
\<close>

theorem identity_map_invariant_preserved:
  assumes "identity_map_ok s"
  shows "(\<exists>s'. connection_or_set_identity_digest c d s = Some (Inr s') \<and> identity_map_ok s'
            \<and> identity_digest (conns s' c) = d)
     \<and> (\<exists>s'. connection_or_remove_from_identity_map c s = Some s' \<and> identity_map_ok s')
     \<and> identity_map_ok (connection_or_clear_identity_map s)
     \<and> orconn_identity_map (connection_or_clear_identity_map s) = None
     \<and> (\<forall>q \<in> set (connection_array s). conn_type (conns s q) = CONN_TYPE_OR
          \<longrightarrow> identity_digest (conns (connection_or_clear_identity_map s) q) = 0)"
proof -
  from set_identity_digest_ok [OF assms, of c d]
  have a: "\<exists>s'. connection_or_set_identity_digest c d s = Some (Inr s') \<and> identity_map_ok s'
            \<and> identity_digest (conns s' c) = d"
    by blast
  from remove_from_identity_map_ok [OF assms, of c]
  have b: "\<exists>s'. connection_or_remove_from_identity_map c s = Some s' \<and> identity_map_ok s'"
    by blast
  from a b clear_identity_map_ok [of s] show ?thesis by (intro conjI) simp_all
qed

theorem identity_map_invariant_preserved_witness:
  "identity_map_ok state4
   \<and> (\<exists>s'. connection_or_set_identity_digest 2 9 state4 = Some (Inr s') \<and> identity_map_ok s'
          \<and> identity_digest (conns s' 2) = 9)
   \<and> (\<exists>s'. connection_or_remove_from_identity_map 2 state4 = Some s' \<and> identity_map_ok s')
   \<and> identity_map_ok (connection_or_clear_identity_map state4)
   \<and> identity_digest (conns state4 1) = 7
   \<and> identity_digest (conns (connection_or_clear_identity_map state4) 1) = 0"
proof -
  have c: "identity_chain (conns state4) (Some 1) [1, 2]"
    by (simp add: state4_def state0_def conn0_def)
  have "\<forall>q \<in> set [1, 2]. identity_digest (conns state4 q) = 7"
    by (simp add: state4_def state0_def conn0_def)
  with c have "identity_entry_ok (conns state4) 7 1"
    unfolding identity_entry_ok_def by (intro conjI exI [of _ "[1, 2]"]) simp_all
  then have ok: "identity_map_ok state4"
    by (simp add: identity_map_ok_def state4_def state0_def)
  have t: "1 \<in> set (connection_array state4)" "conn_type (conns state4 1) = CONN_TYPE_OR"
    "identity_digest (conns state4 1) = 7"
    by (simp_all add: state4_def state0_def conn0_def)
  from identity_map_invariant_preserved [OF ok, of 2 9] ok t show ?thesis by blast
qed

subsection \<open>Choosing a connection to extend over\<close>













subsection \<open>Flagging connections as bad for new circuits\<close>















lemma too_old_test_in_range:
  assumes "- (2 ^ 63) \<le> t" and "t + TIME_BEFORE_OR_CONN_IS_TOO_OLD < 2 ^ 63"
  shows "int64_wrap (t + TIME_BEFORE_OR_CONN_IS_TOO_OLD) < now \<longleftrightarrow>
    t + TIME_BEFORE_OR_CONN_IS_TOO_OLD < now"
proof -
  from assms have "int64_wrap (t + TIME_BEFORE_OR_CONN_IS_TOO_OLD) = t + TIME_BEFORE_OR_CONN_IS_TOO_OLD"
    by (intro int64_wrap_id) (simp_all add: TIME_BEFORE_OR_CONN_IS_TOO_OLD_def)
  then show ?thesis by simp
qed
















end
